theory Spec2Isabelle
  imports Main "HOL-Library.Word" "HOL-Library.Sublist"
begin

unbundle bit_operations_syntax

section \<open>The cached downloader of \<^verbatim>\<open>dow\<close>: model\<close>

text \<open>
  The development embeds \<^verbatim>\<open>src/dow/cached_download.py\<close>, \<^verbatim>\<open>src/dow/_indent.py\<close> and the
  exception handlers of \<^verbatim>\<open>main\<close> in \<^verbatim>\<open>src/dow/cli.py\<close>.

  Python strings and file contents are \<open>string\<close> (one \<open>char\<close> per character or byte; the
  inputs of interest are ASCII, where Python's \<^verbatim>\<open>len\<close> and \<open>length\<close> agree).  An exception is
  a value of \<open>exn\<close>, and a function that can raise returns \<open>exn + 'a\<close> together with the
  world it leaves behind.  Only subclasses of \<^verbatim>\<open>Exception\<close> are modelled: an interrupt
  (\<^verbatim>\<open>KeyboardInterrupt\<close>) is not a value of \<open>exn\<close>.
\<close>

type_synonym path = string
type_synonym bytes = string

datatype exn =
    ValueError string
  | AssertionError string
  | FileNotFoundError string
  | FileExistsError string
  | IsADirectoryError string
  | NotADirectoryError string
  | ShutilError string
  | TypeError string
  | NameError string
  | FileURLRetrievalError string
  | FolderContentsMaximumLimitError string
  | ProxyError string
  | OtherError string

text \<open>\<^verbatim>\<open>except OSError\<close>: the built-in subclasses, \<^verbatim>\<open>shutil.Error\<close> and the exceptions of
  \<^verbatim>\<open>requests\<close> all derive from \<^verbatim>\<open>OSError\<close>.\<close>

fun is_OSError :: "exn \<Rightarrow> bool" where
  "is_OSError (FileNotFoundError m) = True"
| "is_OSError (FileExistsError m) = True"
| "is_OSError (IsADirectoryError m) = True"
| "is_OSError (NotADirectoryError m) = True"
| "is_OSError (ShutilError m) = True"
| "is_OSError (ProxyError m) = True"
| "is_OSError e = False"

fun is_FileExistsError :: "exn \<Rightarrow> bool" where
  "is_FileExistsError (FileExistsError m) = True"
| "is_FileExistsError e = False"

subsection \<open>The outside world\<close>

datatype node = File bytes | Dir

text \<open>What one call of the download engine does: it writes the whole body to its output
  and returns, or it raises, possibly leaving a partial file behind.\<close>

datatype outcome = Delivered bytes | Aborted "bytes option" exn

text \<open>
  The world a call runs in.  \<open>nodes\<close> is the file system, keyed by the path as written
  (no symbolic links, no resolution of \<^verbatim>\<open>.\<close>, \<^verbatim>\<open>..\<close> or doubled slashes; a path made of slashes
  only is the root directory, which always exists).  \<open>stdout\<close> and \<open>stderr\<close> are the lines
  printed so far, \<open>opened\<close> the paths handed to \<^verbatim>\<open>open\<close>, \<open>fetched\<close> the URLs handed to the
  download engine.  \<open>net\<close> is what the network answers to the n-th fetch, and \<open>tmp_names\<close>
  are the draws of \<^verbatim>\<open>tempfile\<close>'s random name generator that are still to come.
\<close>

record world =
  nodes :: "path \<Rightarrow> node option"
  stdout :: "string list"
  stderr :: "string list"
  opened :: "path list"
  fetched :: "string list"
  net :: "nat \<Rightarrow> string \<Rightarrow> outcome"
  tmp_names :: "nat list list"

definition print_out :: "string \<Rightarrow> world \<Rightarrow> world" where
  "print_out s w = w\<lparr>stdout := stdout w @ [s]\<rparr>"

definition print_err :: "string \<Rightarrow> world \<Rightarrow> world" where
  "print_err s w = w\<lparr>stderr := stderr w @ [s]\<rparr>"

subsection \<open>\<^verbatim>\<open>os.path\<close>\<close>

definition slash :: char where
  "slash = CHR ''/''"

definition is_root :: "path \<Rightarrow> bool" where
  "is_root p = (p \<noteq> [] \<and> p = replicate (length p) slash)"

definition rstrip_slash :: "string \<Rightarrow> string" where
  "rstrip_slash s = rev (dropWhile (\<lambda>c. c = slash) (rev s))"

text \<open>\<^verbatim>\<open>posixpath.split\<close>: the head is everything up to the last slash, without its trailing
  slashes unless it consists of slashes only; the tail is the rest.\<close>

definition osp_split :: "path \<Rightarrow> path \<times> path" where
  "osp_split p =
     (let head = rev (dropWhile (\<lambda>c. c \<noteq> slash) (rev p));
          tail = rev (takeWhile (\<lambda>c. c \<noteq> slash) (rev p))
      in (if head \<noteq> [] \<and> head \<noteq> replicate (length head) slash then rstrip_slash head else head,
          tail))"

definition osp_dirname :: "path \<Rightarrow> path" where
  "osp_dirname p = fst (osp_split p)"

definition osp_basename :: "path \<Rightarrow> path" where
  "osp_basename p = snd (osp_split p)"

definition osp_join :: "path \<Rightarrow> path \<Rightarrow> path" where
  "osp_join a b =
     (if b \<noteq> [] \<and> hd b = slash then b
      else if a = [] \<or> last a = slash then a @ b
      else a @ [slash] @ b)"

definition osp_exists :: "world \<Rightarrow> path \<Rightarrow> bool" where
  "osp_exists w p = (nodes w p \<noteq> None \<or> is_root p)"

definition osp_isdir :: "world \<Rightarrow> path \<Rightarrow> bool" where
  "osp_isdir w p = (nodes w p = Some Dir \<or> (nodes w p = None \<and> is_root p))"

subsection \<open>\<^verbatim>\<open>os.mkdir\<close>, \<^verbatim>\<open>os.makedirs\<close>, \<^verbatim>\<open>tempfile.mkdtemp\<close>\<close>

text \<open>The directory an entry lives in: \<^verbatim>\<open>split\<close>, once more when the path ends in a slash
  (as \<^verbatim>\<open>os.makedirs\<close> does).\<close>

definition md_split :: "path \<Rightarrow> path \<times> path" where
  "md_split name = (if snd (osp_split name) = [] then osp_split (fst (osp_split name))
                    else osp_split name)"

definition parent_dir :: "path \<Rightarrow> path" where
  "parent_dir name = fst (md_split name)"

text \<open>An entry can be created where its directory is the current one (empty path) or an
  existing directory.\<close>

definition parent_ok :: "world \<Rightarrow> path \<Rightarrow> bool" where
  "parent_ok w name = (parent_dir name = [] \<or> osp_isdir w (parent_dir name))"

definition os_mkdir :: "path \<Rightarrow> world \<Rightarrow> (exn + unit) \<times> world" where
  "os_mkdir name w =
     (if name = [] then (Inl (FileNotFoundError name), w)
      else if osp_exists w name then (Inl (FileExistsError name), w)
      else if parent_ok w name then (Inr (), w\<lparr>nodes := (nodes w)(name \<mapsto> Dir)\<rparr>)
      else if osp_exists w (parent_dir name) then (Inl (NotADirectoryError name), w)
      else (Inl (FileNotFoundError name), w))"

lemma osp_split_length:
  "length (fst (osp_split p)) + length (snd (osp_split p)) \<le> length p"
proof -
  let ?h = "rev (dropWhile (\<lambda>c. c \<noteq> slash) (rev p))"
  let ?t = "rev (takeWhile (\<lambda>c. c \<noteq> slash) (rev p))"
  have "length (takeWhile (\<lambda>c. c \<noteq> slash) (rev p)) + length (dropWhile (\<lambda>c. c \<noteq> slash) (rev p))
          = length (rev p)"
    by (metis length_append takeWhile_dropWhile_id)
  then have total: "length ?h + length ?t = length p"
    by simp
  have "length (rstrip_slash ?h) \<le> length ?h"
    unfolding rstrip_slash_def by (simp add: length_dropWhile_le)
  then show ?thesis
    using total by (auto simp: osp_split_def Let_def)
qed

lemma md_split_shorter:
  "snd (md_split name) \<noteq> [] \<Longrightarrow> length (fst (md_split name)) < length name"
proof -
  assume t: "snd (md_split name) \<noteq> []"
  show ?thesis
  proof (cases "snd (osp_split name) = []")
    case True
    then have eq: "md_split name = osp_split (fst (osp_split name))"
      by (simp add: md_split_def)
    from t eq have "snd (osp_split (fst (osp_split name))) \<noteq> []" by simp
    then have "length (fst (osp_split (fst (osp_split name)))) < length (fst (osp_split name))"
      using osp_split_length [of "fst (osp_split name)"] by (cases "snd (osp_split (fst (osp_split name)))") auto
    moreover have "length (fst (osp_split name)) \<le> length name"
      using osp_split_length [of name] by simp
    ultimately show ?thesis using eq by simp
  next
    case False
    then have eq: "md_split name = osp_split name"
      by (simp add: md_split_def)
    from False show ?thesis
      using osp_split_length [of name] eq by (cases "snd (osp_split name)") auto
  qed
qed

text \<open>\<^verbatim>\<open>os.makedirs(name)\<close> with \<^verbatim>\<open>exist_ok=False\<close>: make the missing directories above
  \<open>name\<close> first (a \<^verbatim>\<open>FileExistsError\<close> from there is ignored), then \<open>name\<close> itself.\<close>

function os_makedirs :: "path \<Rightarrow> world \<Rightarrow> (exn + unit) \<times> world" where
  "os_makedirs name w =
     (if fst (md_split name) \<noteq> [] \<and> snd (md_split name) \<noteq> []
         \<and> \<not> osp_exists w (fst (md_split name))
      then (case os_makedirs (fst (md_split name)) w of
              (Inl e, w1) \<Rightarrow>
                if is_FileExistsError e
                then (if snd (md_split name) = ''.'' then (Inr (), w1) else os_mkdir name w1)
                else (Inl e, w1)
            | (Inr u, w1) \<Rightarrow>
                if snd (md_split name) = ''.'' then (Inr (), w1) else os_mkdir name w1)
      else os_mkdir name w)"
  by pat_completeness auto
termination
  by (relation "measure (\<lambda>(name, w). length name)") (auto simp: md_split_shorter)

declare os_makedirs.simps [simp del]

text \<open>Lines 100--103: \<^verbatim>\<open>try: os.makedirs(..) except OSError: pass\<close>.  A raise that is not an
  \<^verbatim>\<open>OSError\<close> would propagate.\<close>

definition makedirs_quiet :: "path \<Rightarrow> world \<Rightarrow> (exn + unit) \<times> world" where
  "makedirs_quiet name w =
     (case os_makedirs name w of
        (Inl e, w1) \<Rightarrow> if is_OSError e then (Inr (), w1) else (Inl e, w1)
      | (Inr u, w1) \<Rightarrow> (Inr (), w1))"

text \<open>\<^verbatim>\<open>tempfile\<close> draws each character of a name from this alphabet.\<close>

definition tmp_characters :: string where
  "tmp_characters = ''abcdefghijklmnopqrstuvwxyz0123456789_''"

definition random_name :: "nat list \<Rightarrow> string" where
  "random_name draws = map (\<lambda>i. tmp_characters ! (i mod 37)) draws"

text \<open>\<^verbatim>\<open>tempfile.mkdtemp(dir=d)\<close>: try the names drawn one after the other; a name that exists
  is skipped, any other failure of \<^verbatim>\<open>mkdir\<close> propagates; when the draws are used up the call
  raises \<^verbatim>\<open>FileExistsError\<close>.\<close>

fun mkdtemp_loop :: "path \<Rightarrow> nat list list \<Rightarrow> world \<Rightarrow> (exn + path) \<times> world" where
  "mkdtemp_loop d [] w =
     (Inl (FileExistsError ''No usable temporary directory name found''), w\<lparr>tmp_names := []\<rparr>)"
| "mkdtemp_loop d (c # cs) w =
     (case os_mkdir (osp_join d (''tmp'' @ random_name c)) w of
        (Inr u, w1) \<Rightarrow> (Inr (osp_join d (''tmp'' @ random_name c)), w1\<lparr>tmp_names := cs\<rparr>)
      | (Inl e, w1) \<Rightarrow>
          if is_FileExistsError e then mkdtemp_loop d cs w1
          else (Inl e, w1\<lparr>tmp_names := cs\<rparr>))"

definition mkdtemp :: "path \<Rightarrow> world \<Rightarrow> (exn + path) \<times> world" where
  "mkdtemp d w = mkdtemp_loop d (tmp_names w) w"

subsection \<open>\<^verbatim>\<open>hashlib.md5\<close>\<close>

text \<open>The MD5 function of RFC 1321, which \<^verbatim>\<open>hashlib.md5\<close> computes: padding to a multiple of
  64 bytes, four rounds of sixteen steps per 64-byte chunk on little-endian 32-bit words, and
  the four state words printed as 32 lower-case hexadecimal digits.\<close>

type_synonym u32 = "32 word"
type_synonym md5_state = "u32 \<times> u32 \<times> u32 \<times> u32"

definition md5_K :: "u32 list" where
  "md5_K = [
    0xd76aa478, 0xe8c7b756, 0x242070db, 0xc1bdceee, 0xf57c0faf, 0x4787c62a, 0xa8304613, 0xfd469501,
    0x698098d8, 0x8b44f7af, 0xffff5bb1, 0x895cd7be, 0x6b901122, 0xfd987193, 0xa679438e, 0x49b40821,
    0xf61e2562, 0xc040b340, 0x265e5a51, 0xe9b6c7aa, 0xd62f105d, 0x02441453, 0xd8a1e681, 0xe7d3fbc8,
    0x21e1cde6, 0xc33707d6, 0xf4d50d87, 0x455a14ed, 0xa9e3e905, 0xfcefa3f8, 0x676f02d9, 0x8d2a4c8a,
    0xfffa3942, 0x8771f681, 0x6d9d6122, 0xfde5380c, 0xa4beea44, 0x4bdecfa9, 0xf6bb4b60, 0xbebfbc70,
    0x289b7ec6, 0xeaa127fa, 0xd4ef3085, 0x04881d05, 0xd9d4d039, 0xe6db99e5, 0x1fa27cf8, 0xc4ac5665,
    0xf4292244, 0x432aff97, 0xab9423a7, 0xfc93a039, 0x655b59c3, 0x8f0ccc92, 0xffeff47d, 0x85845dd1,
    0x6fa87e4f, 0xfe2ce6e0, 0xa3014314, 0x4e0811a1, 0xf7537e82, 0xbd3af235, 0x2ad7d2bb, 0xeb86d391]"

definition md5_S :: "nat list" where
  "md5_S = [7, 12, 17, 22, 7, 12, 17, 22, 7, 12, 17, 22, 7, 12, 17, 22,
            5, 9, 14, 20, 5, 9, 14, 20, 5, 9, 14, 20, 5, 9, 14, 20,
            4, 11, 16, 23, 4, 11, 16, 23, 4, 11, 16, 23, 4, 11, 16, 23,
            6, 10, 15, 21, 6, 10, 15, 21, 6, 10, 15, 21, 6, 10, 15, 21]"

definition rotl32 :: "nat \<Rightarrow> u32 \<Rightarrow> u32" where
  "rotl32 n x = (push_bit n x) OR (drop_bit (32 - n) x)"

fun le_bytes :: "nat \<Rightarrow> 'a::len word \<Rightarrow> 8 word list" where
  "le_bytes 0 v = []"
| "le_bytes (Suc k) v = ucast v # le_bytes k (drop_bit 8 v)"

definition md5_pad :: "8 word list \<Rightarrow> 8 word list" where
  "md5_pad m = m @ [0x80] @ replicate ((119 - length m mod 64) mod 64) 0
                 @ le_bytes 8 (of_nat (8 * length m) :: 64 word)"

fun le_word :: "8 word list \<Rightarrow> u32" where
  "le_word [] = 0"
| "le_word (b # bs) = ucast b OR push_bit 8 (le_word bs)"

fun chunk_words :: "nat \<Rightarrow> 8 word list \<Rightarrow> u32 list" where
  "chunk_words 0 bs = []"
| "chunk_words (Suc k) bs = le_word (take 4 bs) # chunk_words k (drop 4 bs)"

fun md5_step :: "u32 list \<Rightarrow> md5_state \<Rightarrow> nat \<Rightarrow> md5_state" where
  "md5_step M (a, b, c, d) i =
     (let f = (if i < 16 then (b AND c) OR (NOT b AND d)
               else if i < 32 then (d AND b) OR (NOT d AND c)
               else if i < 48 then b XOR c XOR d
               else c XOR (b OR NOT d));
          g = (if i < 16 then i
               else if i < 32 then (5 * i + 1) mod 16
               else if i < 48 then (3 * i + 5) mod 16
               else (7 * i) mod 16)
      in (d, b + rotl32 (md5_S ! i) (f + a + md5_K ! i + M ! g), b, c))"

fun md5_add :: "md5_state \<Rightarrow> md5_state \<Rightarrow> md5_state" where
  "md5_add (a0, b0, c0, d0) (a, b, c, d) = (a0 + a, b0 + b, c0 + c, d0 + d)"

definition md5_chunk :: "md5_state \<Rightarrow> 8 word list \<Rightarrow> md5_state" where
  "md5_chunk st bs = md5_add st (foldl (md5_step (chunk_words 16 bs)) st [0..<64])"

fun md5_chunks :: "nat \<Rightarrow> md5_state \<Rightarrow> 8 word list \<Rightarrow> md5_state" where
  "md5_chunks 0 st bs = st"
| "md5_chunks (Suc k) st bs = md5_chunks k (md5_chunk st (take 64 bs)) (drop 64 bs)"

definition hex_digits :: string where
  "hex_digits = ''0123456789abcdef''"

definition hex_byte :: "8 word \<Rightarrow> string" where
  "hex_byte b = [hex_digits ! (unat b div 16), hex_digits ! (unat b mod 16)]"

fun md5_output :: "md5_state \<Rightarrow> 8 word list" where
  "md5_output (a, b, c, d) = le_bytes 4 a @ le_bytes 4 b @ le_bytes 4 c @ le_bytes 4 d"

definition md5_digest :: "bytes \<Rightarrow> 8 word list" where
  "md5_digest m =
     (let p = md5_pad (map (\<lambda>c. of_nat (of_char c)) m)
      in md5_output (md5_chunks (length p div 64)
                       (0x67452301, 0xefcdab89, 0x98badcfe, 0x10325476) p))"

definition md5_hexdigest :: "bytes \<Rightarrow> string" where
  "md5_hexdigest m = concat (map hex_byte (md5_digest m))"

text \<open>A hash object is the bytes fed to it so far: \<^verbatim>\<open>update\<close> appends, \<^verbatim>\<open>hexdigest\<close> hashes.\<close>

definition md5_update :: "bytes \<Rightarrow> bytes \<Rightarrow> bytes" where
  "md5_update h block = h @ block"

subsection \<open>\<^verbatim>\<open>calculate_md5sum\<close> and \<^verbatim>\<open>validate_md5sum\<close> (lines 22--48)\<close>

text \<open>\<^verbatim>\<open>open(file_path, "rb")\<close>; every attempt is recorded in \<open>opened\<close>.\<close>

definition open_rb :: "path \<Rightarrow> world \<Rightarrow> (exn + bytes) \<times> world" where
  "open_rb p w =
     (let w1 = w\<lparr>opened := opened w @ [p]\<rparr>
      in case nodes w p of
           Some (File c) \<Rightarrow> (Inr c, w1)
         | Some Dir \<Rightarrow> (Inl (IsADirectoryError p), w1)
         | None \<Rightarrow> if is_root p then (Inl (IsADirectoryError p), w1)
                   else (Inl (FileNotFoundError p), w1))"

text \<open>\<^verbatim>\<open>iter(lambda: file.read(block_size), b"")\<close>: the blocks read until the first empty one.
  \<^verbatim>\<open>read(0)\<close> is empty at once; a negative size reads the rest of the file.\<close>

function read_blocks :: "int \<Rightarrow> bytes \<Rightarrow> bytes list" where
  "read_blocks n c =
     (if n = 0 \<or> c = [] then []
      else if n < 0 then [c]
      else take (nat n) c # read_blocks n (drop (nat n) c))"
  by pat_completeness auto
termination
  by (relation "measure (\<lambda>(n, c). length c)") auto

declare read_blocks.simps [simp del]

definition calculate_md5sum :: "path \<Rightarrow> int option \<Rightarrow> world \<Rightarrow> (exn + string) \<times> world" where
  "calculate_md5sum file_path block_size w =
     (let block_size = (case block_size of None \<Rightarrow> 65536 | Some n \<Rightarrow> n)
      in case open_rb file_path w of
           (Inl e, w1) \<Rightarrow> (Inl e, w1)
         | (Inr content, w1) \<Rightarrow>
             (Inr (md5_hexdigest (foldl md5_update [] (read_blocks block_size content))), w1))"

definition mismatch_message :: "string \<Rightarrow> string \<Rightarrow> string" where
  "mismatch_message actual_md5 expected_md5 =
     ''MD5 mismatch:'' @ [CHR 0x0A] @ ''Actual: '' @ actual_md5 @ [CHR 0x0A]
       @ ''Expected: '' @ expected_md5"

definition length_message :: "string option \<Rightarrow> string" where
  "length_message expected_md5 =
     ''Expected MD5 must be 32 characters long: ''
       @ (case expected_md5 of None \<Rightarrow> ''None'' | Some e \<Rightarrow> e)"

text \<open>The expected checksum is \<^verbatim>\<open>None\<close> or a \<^verbatim>\<open>str\<close>; \<^verbatim>\<open>isinstance(None, str)\<close> is false.\<close>

definition validate_md5sum ::
  "path \<Rightarrow> string option \<Rightarrow> bool \<Rightarrow> int option \<Rightarrow> world \<Rightarrow> (exn + bool) \<times> world" where
  "validate_md5sum file_path expected_md5 silent block_size w =
     (case expected_md5 of
        None \<Rightarrow> (Inl (ValueError (length_message expected_md5)), w)
      | Some e \<Rightarrow>
          if length e \<noteq> 32 then (Inl (ValueError (length_message expected_md5)), w)
          else
            (let w1 = (if \<not> silent then print_out (''Calculating MD5: '' @ file_path) w else w)
             in case calculate_md5sum file_path block_size w1 of
                  (Inl x, w2) \<Rightarrow> (Inl x, w2)
                | (Inr actual_md5, w2) \<Rightarrow>
                    if actual_md5 = e
                    then (Inr True,
                          if \<not> silent then print_out (''MD5 matches: '' @ file_path) w2 else w2)
                    else (Inl (AssertionError (mismatch_message actual_md5 e)), w2)))"

subsection \<open>The download engine, \<^verbatim>\<open>filelock\<close> and \<^verbatim>\<open>shutil\<close>\<close>

text \<open>Modelled from the spec: \<^verbatim>\<open>custom_download\<close> (\<^verbatim>\<open>src/dow/custom_download.py\<close>, the
  DownloadEngine of section 4.2) is not among the sources.  It "writes exactly one file or
  stream" and raises on failure; the core "never prints to a terminal".  One call is one
  network fetch: it is recorded in \<open>fetched\<close>, and \<open>net\<close> decides what it delivers.\<close>

definition custom_download :: "string \<Rightarrow> path \<Rightarrow> bool \<Rightarrow> world \<Rightarrow> (exn + unit) \<times> world" where
  "custom_download url output silent w =
     (let w1 = w\<lparr>fetched := fetched w @ [url]\<rparr>
      in case net w (length (fetched w)) url of
           Delivered b \<Rightarrow> (Inr (), w1\<lparr>nodes := (nodes w1)(output \<mapsto> File b)\<rparr>)
         | Aborted None e \<Rightarrow> (Inl e, w1)
         | Aborted (Some b) e \<Rightarrow> (Inl e, w1\<lparr>nodes := (nodes w1)(output \<mapsto> File b)\<rparr>))"

text \<open>\<^verbatim>\<open>with filelock.FileLock(lock_path)\<close>: acquiring opens the lock file, creating or
  truncating it; releasing leaves it in place.\<close>

definition filelock_acquire :: "path \<Rightarrow> world \<Rightarrow> (exn + unit) \<times> world" where
  "filelock_acquire lock_path w =
     (if osp_isdir w lock_path then (Inl (IsADirectoryError lock_path), w)
      else if lock_path = [] \<or> \<not> parent_ok w lock_path then (Inl (FileNotFoundError lock_path), w)
      else (Inr (), w\<lparr>nodes := (nodes w)(lock_path \<mapsto> File [])\<rparr>))"

text \<open>\<^verbatim>\<open>os.rename\<close> of a regular file (the only kind of source here).\<close>

definition os_rename :: "path \<Rightarrow> path \<Rightarrow> world \<Rightarrow> (exn + unit) \<times> world" where
  "os_rename src dst w =
     (case nodes w src of
        None \<Rightarrow> (Inl (FileNotFoundError src), w)
      | Some Dir \<Rightarrow> (Inl (IsADirectoryError src), w)
      | Some (File c) \<Rightarrow>
          if dst = [] \<or> \<not> parent_ok w dst then (Inl (FileNotFoundError dst), w)
          else if osp_isdir w dst then (Inl (IsADirectoryError dst), w)
          else (Inr (), w\<lparr>nodes := (nodes w)(src := None, dst \<mapsto> File c)\<rparr>))"

text \<open>\<^verbatim>\<open>shutil.move(src, dst)\<close>: into \<open>dst\<close> when that is a directory (refusing to overwrite an
  entry of the same name there), onto \<open>dst\<close> otherwise.\<close>

definition shutil_move :: "path \<Rightarrow> path \<Rightarrow> world \<Rightarrow> (exn + unit) \<times> world" where
  "shutil_move src dst w =
     (if osp_isdir w dst
      then (let real_dst = osp_join dst (osp_basename (rstrip_slash src))
            in if osp_exists w real_dst
               then (Inl (ShutilError (''Destination path '' @ real_dst @ '' already exists'')), w)
               else os_rename src real_dst w)
      else os_rename src dst w)"

text \<open>The entries above a path, nearest first.\<close>

function ancestors :: "path \<Rightarrow> path list" where
  "ancestors p =
     (if parent_dir p = [] \<or> length p \<le> length (parent_dir p) then []
      else parent_dir p # ancestors (parent_dir p))"
  by pat_completeness auto
termination
  by (relation "measure length") auto

declare ancestors.simps [simp del]

text \<open>\<^verbatim>\<open>shutil.rmtree(d)\<close>: \<open>d\<close> and everything below it goes.\<close>

definition rmtree :: "path \<Rightarrow> world \<Rightarrow> world" where
  "rmtree d w = w\<lparr>nodes := (\<lambda>k. if k = d \<or> d \<in> set (ancestors k) then None else nodes w k)\<rparr>"

subsection \<open>\<^verbatim>\<open>cached_custom_download\<close> (lines 14--19 and 51--130)\<close>

text \<open>\<^verbatim>\<open>str.replace(old, new)\<close>: every non-overlapping occurrence, from the left.\<close>

function py_replace :: "string \<Rightarrow> string \<Rightarrow> string \<Rightarrow> string" where
  "py_replace old new s =
     (if old = [] then new @ concat (map (\<lambda>c. c # new) s)
      else if s = [] then []
      else if prefix old s then new @ py_replace old new (drop (length old) s)
      else hd s # py_replace old new (tl s))"
  by pat_completeness auto
termination
  by (relation "measure (\<lambda>(old, new, s). length s)") auto

declare py_replace.simps [simp del]

text \<open>Line 14; \<open>home\<close> is what \<^verbatim>\<open>osp.expanduser("~")\<close> returns.\<close>

definition custom_cache_root :: "path \<Rightarrow> path" where
  "custom_cache_root home = osp_join home ''.custom_cache/gdown''"

text \<open>Lines 15--19, run once when the module is imported.\<close>

definition module_init :: "path \<Rightarrow> world \<Rightarrow> (exn + unit) \<times> world" where
  "module_init home w =
     (if \<not> osp_exists w (custom_cache_root home) then makedirs_quiet (custom_cache_root home) w
      else (Inr (), w))"

text \<open>Lines 76--83.\<close>

definition resolve_file_path :: "path \<Rightarrow> string \<Rightarrow> path option \<Rightarrow> path" where
  "resolve_file_path home url file_path =
     (case file_path of
        None \<Rightarrow>
          osp_join (custom_cache_root home)
            (py_replace ''?'' ''-QUESTION-''
              (py_replace ''='' ''-EQUAL-''
                (py_replace '':'' ''-COLON-''
                  (py_replace ''/'' ''-SLASH-'' url))))
      | Some p \<Rightarrow> p)"

text \<open>Truth value of \<^verbatim>\<open>expected_md5\<close>: \<^verbatim>\<open>None\<close> and the empty string are false.\<close>

fun truthy :: "string option \<Rightarrow> bool" where
  "truthy None = False"
| "truthy (Some s) = (s \<noteq> [])"

text \<open>Lines 86--96.  \<open>Inr (Some p)\<close>: the function returns \<open>p\<close> here; \<open>Inr None\<close>: control
  falls through to the download.\<close>

definition check_cache ::
  "path \<Rightarrow> string option \<Rightarrow> bool \<Rightarrow> world \<Rightarrow> (exn + path option) \<times> world" where
  "check_cache file_path expected_md5 silent w =
     (if osp_exists w file_path \<and> \<not> truthy expected_md5
      then (Inr (Some file_path),
            if \<not> silent then print_out (''File already exists: '' @ file_path) w else w)
      else if osp_exists w file_path \<and> truthy expected_md5
      then (case validate_md5sum file_path expected_md5 silent None w of
              (Inr ok, w1) \<Rightarrow> (Inr (Some file_path), w1)
            | (Inl (AssertionError m), w1) \<Rightarrow> (Inr None, print_err m w1)
            | (Inl e, w1) \<Rightarrow> (Inl e, w1))
      else (Inr None, w))"

text \<open>Lines 106--118, the body of the \<^verbatim>\<open>try\<close>.\<close>

definition download_and_publish ::
  "string \<Rightarrow> path \<Rightarrow> bool \<Rightarrow> path \<Rightarrow> path \<Rightarrow> world \<Rightarrow> (exn + unit) \<times> world" where
  "download_and_publish url file_path silent lock_path temp_root w =
     (let temp_file_path = osp_join temp_root ''dl'';
          w1 = (if \<not> silent
                then print_err (if file_path \<noteq> []
                                then ''Cached Download in progress: '' @ file_path
                                else ''Cached Download in progress...'') w
                else w)
      in case custom_download url temp_file_path silent w1 of
           (Inl e, w2) \<Rightarrow> (Inl e, w2)
         | (Inr u, w2) \<Rightarrow>
             (case filelock_acquire lock_path w2 of
                (Inl e, w3) \<Rightarrow> (Inl e, w3)
              | (Inr u, w3) \<Rightarrow> shutil_move temp_file_path file_path w3))"

text \<open>Lines 99--121: the lock path, the directories above the target, the temporary
  directory, the \<^verbatim>\<open>try\<close> and its \<^verbatim>\<open>except Exception: shutil.rmtree(temp_root); raise\<close>.\<close>

definition fetch_to_cache ::
  "path \<Rightarrow> string \<Rightarrow> path \<Rightarrow> bool \<Rightarrow> world \<Rightarrow> (exn + unit) \<times> world" where
  "fetch_to_cache home url file_path silent w =
     (let lock_path = osp_join (custom_cache_root home) ''_dl_lock''
      in case makedirs_quiet (osp_dirname file_path) w of
           (Inl e, w1) \<Rightarrow> (Inl e, w1)
         | (Inr u, w1) \<Rightarrow>
             (case mkdtemp (custom_cache_root home) w1 of
                (Inl e, w2) \<Rightarrow> (Inl e, w2)
              | (Inr temp_root, w2) \<Rightarrow>
                  (case download_and_publish url file_path silent lock_path temp_root w2 of
                     (Inl e, w3) \<Rightarrow> (Inl e, rmtree temp_root w3)
                   | (Inr u, w3) \<Rightarrow> (Inr (), w3))))"

text \<open>Lines 123--130.\<close>

definition verify_and_postprocess ::
  "path \<Rightarrow> string option \<Rightarrow> bool \<Rightarrow> (path \<Rightarrow> world \<Rightarrow> (exn + unit) \<times> world) option
     \<Rightarrow> world \<Rightarrow> (exn + path) \<times> world" where
  "verify_and_postprocess file_path expected_md5 silent postprocess w =
     (case (if truthy expected_md5 then validate_md5sum file_path expected_md5 silent None w
            else (Inr True, w)) of
        (Inl e, w1) \<Rightarrow> (Inl e, w1)
      | (Inr ok, w1) \<Rightarrow>
          (case postprocess of
             None \<Rightarrow> (Inr file_path, w1)
           | Some f \<Rightarrow>
               (case f file_path w1 of
                  (Inl e, w2) \<Rightarrow> (Inl e, w2)
                | (Inr u, w2) \<Rightarrow> (Inr file_path, w2))))"

definition cached_custom_download ::
  "path \<Rightarrow> string \<Rightarrow> path option \<Rightarrow> string option \<Rightarrow> bool
     \<Rightarrow> (path \<Rightarrow> world \<Rightarrow> (exn + unit) \<times> world) option \<Rightarrow> world \<Rightarrow> (exn + path) \<times> world" where
  "cached_custom_download home url file_path expected_md5 silent postprocess w =
     (let file_path = resolve_file_path home url file_path
      in case check_cache file_path expected_md5 silent w of
           (Inl e, w1) \<Rightarrow> (Inl e, w1)
         | (Inr (Some p), w1) \<Rightarrow> (Inr p, w1)
         | (Inr None, w1) \<Rightarrow>
             (case fetch_to_cache home url file_path silent w1 of
                (Inl e, w2) \<Rightarrow> (Inl e, w2)
              | (Inr u, w2) \<Rightarrow>
                  verify_and_postprocess file_path expected_md5 silent postprocess w2))"

subsection \<open>\<^verbatim>\<open>indent\<close> (\<^verbatim>\<open>_indent.py\<close>) and the handlers of \<^verbatim>\<open>main\<close> (\<^verbatim>\<open>cli.py\<close>, lines 147--200)\<close>

definition is_linebreak :: "char \<Rightarrow> bool" where
  "is_linebreak c = (c \<in> set [CHR 0x0A, CHR 0x0B, CHR 0x0C, CHR 0x0D, CHR 0x1C, CHR 0x1D, CHR 0x1E, CHR 0x85])"

definition is_space :: "char \<Rightarrow> bool" where
  "is_space c = (c \<in> set [CHR 0x09, CHR 0x0A, CHR 0x0B, CHR 0x0C, CHR 0x0D, CHR 0x1C, CHR 0x1D,
                           CHR 0x1E, CHR 0x1F, CHR 0x20, CHR 0x85, CHR 0xA0])"

text \<open>\<^verbatim>\<open>str.splitlines(True)\<close>; the first argument is the line read so far.\<close>

fun splitlines_keepends :: "string \<Rightarrow> string \<Rightarrow> string list" where
  "splitlines_keepends cur [] = (if cur = [] then [] else [cur])"
| "splitlines_keepends cur [c] = [cur @ [c]]"
| "splitlines_keepends cur (c # d # cs) =
     (if c = CHR 0x0D \<and> d = CHR 0x0A then (cur @ [c, d]) # splitlines_keepends [] cs
      else if is_linebreak c then (cur @ [c]) # splitlines_keepends [] (d # cs)
      else splitlines_keepends (cur @ [c]) (d # cs))"

definition py_strip :: "string \<Rightarrow> string" where
  "py_strip s = rev (dropWhile is_space (rev (dropWhile is_space s)))"

definition indent :: "string \<Rightarrow> string \<Rightarrow> string" where
  "indent t p =
     concat (map (\<lambda>line. if py_strip line \<noteq> [] then p @ line else line) (splitlines_keepends [] t))"

text \<open>A call of \<^verbatim>\<open>indent\<close> with positional and keyword arguments, bound to the parameters
  \<^verbatim>\<open>t\<close> and \<^verbatim>\<open>p\<close> of the \<^verbatim>\<open>def\<close> as Python binds them.\<close>

definition call_indent :: "string list \<Rightarrow> (string \<times> string) list \<Rightarrow> exn + string" where
  "call_indent args kwargs =
     (let positional = zip [''t'', ''p''] args
      in case filter (\<lambda>k. k \<notin> set [''t'', ''p'']) (map fst kwargs) of
           k # ks \<Rightarrow>
             Inl (TypeError (''indent() got an unexpected keyword argument '' @ [CHR 0x27] @ k @ [CHR 0x27]))
         | [] \<Rightarrow>
             (case filter (\<lambda>k. k \<in> set (map fst positional)) (map fst kwargs) of
                k # ks \<Rightarrow>
                  Inl (TypeError (''indent() got multiple values for argument '' @ [CHR 0x27] @ k @ [CHR 0x27]))
              | [] \<Rightarrow>
                  if 2 < length args
                  then Inl (TypeError ''indent() takes 2 positional arguments but more were given'')
                  else (case (map_of (positional @ kwargs) ''t'', map_of (positional @ kwargs) ''p'') of
                          (Some t, Some p) \<Rightarrow> Inr (indent t p)
                        | _ \<Rightarrow> Inl (TypeError ''indent() missing required positional arguments''))))"

text \<open>How \<^verbatim>\<open>main\<close> ends: it returns, it calls \<^verbatim>\<open>sys.exit(n)\<close>, or an exception leaves it
  uncaught (the interpreter then prints a traceback and exits with status 1).\<close>

datatype exit = Returned | SysExit nat | Uncaught exn

fun exit_status :: "exit \<Rightarrow> nat" where
  "exit_status Returned = 0"
| "exit_status (SysExit n) = n"
| "exit_status (Uncaught e) = 1"

definition join_lines :: "string list \<Rightarrow> string" where
  "join_lines ls = concat (case ls of [] \<Rightarrow> [] | l # rest \<Rightarrow> l # map (\<lambda>x. CHR 0x0A # x) rest)"

text \<open>Lines 148--173, the body of the \<^verbatim>\<open>try\<close>: with \<^verbatim>\<open>--folder\<close> it calls \<^verbatim>\<open>download_folder\<close>,
  a name the module neither defines nor imports; otherwise it calls the download engine,
  whose result is \<open>engine\<close>.\<close>

definition main_try :: "bool \<Rightarrow> exn + unit \<Rightarrow> exn + unit" where
  "main_try folder engine =
     (if folder then Inl (NameError ''name 'download_folder' is not defined'') else engine)"

text \<open>Lines 174--200, the \<^verbatim>\<open>except\<close> clauses: the lines \<^verbatim>\<open>main\<close> prints to the error stream,
  and how it ends.  \<open>wrap\<close> is \<^verbatim>\<open>textwrap.wrap\<close>.  An exception raised inside a handler is not
  caught by the clauses after it.\<close>

definition main_handlers :: "(string \<Rightarrow> string list) \<Rightarrow> exn + unit \<Rightarrow> string list \<times> exit" where
  "main_handlers wrap body =
     (case body of
        Inr u \<Rightarrow> ([], Returned)
      | Inl (FileURLRetrievalError m) \<Rightarrow> ([m], SysExit 1)
      | Inl (FolderContentsMaximumLimitError m) \<Rightarrow>
          (case call_indent [join_lines (wrap m)] [(''prefix'', [CHR 0x09])] of
             Inl e \<Rightarrow> ([], Uncaught e)
           | Inr s \<Rightarrow>
               ([''Failed to retrieve folder contents:'' @ [CHR 0x0A, CHR 0x0A] @ s @ [CHR 0x0A, CHR 0x0A]
                  @ ''You can use the `--remaining-ok` option to ignore this error.''],
                SysExit 1))
      | Inl (ProxyError m) \<Rightarrow>
          (case call_indent [join_lines (wrap m)] [(''prefix'', [CHR 0x09])] of
             Inl e \<Rightarrow> ([], Uncaught e)
           | Inr s \<Rightarrow>
               ([''Failed to use proxy:'' @ [CHR 0x0A, CHR 0x0A] @ s @ [CHR 0x0A, CHR 0x0A]
                  @ ''Please check your proxy settings.''],
                SysExit 1))
      | Inl e \<Rightarrow> ([''Error''], SysExit 1))"

definition main :: "(string \<Rightarrow> string list) \<Rightarrow> bool \<Rightarrow> exn + unit \<Rightarrow> string list \<times> exit" where
  "main wrap folder engine = main_handlers wrap (main_try folder engine)"

subsection \<open>The spec's notion of a well-formed checksum, and a small world\<close>

text \<open>"Exactly 32 hexadecimal characters", in the words of the spec (section 4.5).\<close>

definition is_hex32 :: "string \<Rightarrow> bool" where
  "is_hex32 s = (length s = 32 \<and> filter (\<lambda>c. c \<notin> set ''0123456789abcdefABCDEF'') s = [])"

text \<open>The replacement of one character of the URL, in the words of the spec (section 4.4):
  each path-unsafe character becomes its literal marker.\<close>

definition marker :: "char \<Rightarrow> string" where
  "marker c = (if c = CHR ''/'' then ''-SLASH-''
               else if c = CHR '':'' then ''-COLON-''
               else if c = CHR ''='' then ''-EQUAL-''
               else if c = CHR ''?'' then ''-QUESTION-''
               else [c])"

text \<open>A file system in which every entry lies in an existing directory.\<close>

definition wf_fs :: "world \<Rightarrow> bool" where
  "wf_fs w = (\<forall>k. nodes w k \<noteq> None \<longrightarrow> (\<forall>a \<in> set (ancestors k). osp_isdir w a))"

text \<open>A home directory with an empty cache root and one file \<^verbatim>\<open>/home/u/f\<close>; the network
  delivers \<^verbatim>\<open>xyz\<close> for every URL.\<close>

definition example_world :: world where
  "example_world =
     \<lparr>nodes = [''/home'' \<mapsto> Dir, ''/home/u'' \<mapsto> Dir, ''/home/u/.custom_cache'' \<mapsto> Dir,
               ''/home/u/.custom_cache/gdown'' \<mapsto> Dir, ''/home/u/f'' \<mapsto> File ''abc''],
      stdout = [], stderr = [], opened = [], fetched = [],
      net = (\<lambda>n url. Delivered ''xyz''),
      tmp_names = [[0, 1, 2, 3, 4, 5, 6, 7]]\<rparr>"

text \<open>The same world with a network that breaks off every transfer after two bytes.\<close>

definition example_offline_world :: world where
  "example_offline_world =
     example_world\<lparr>net := (\<lambda>n url. Aborted (Some ''xy'') (OtherError ''connection reset''))\<rparr>"


section \<open>Properties\<close>

subsection \<open>Facts about the digest\<close>

lemma length_le_bytes: "length (le_bytes k v) = k"
  by (induction k arbitrary: v) auto

lemma length_md5_digest: "length (md5_digest m) = 16"
proof -
  have "length (md5_output st) = 16" for st
    by (cases st) (simp add: length_le_bytes)
  then show ?thesis by (simp add: md5_digest_def Let_def)
qed

lemma length_concat_hex: "length (concat (map hex_byte bs)) = 2 * length bs"
  by (induction bs) (auto simp: hex_byte_def)

lemma length_md5_hexdigest [simp]: "length (md5_hexdigest m) = 32"
  by (simp add: md5_hexdigest_def length_concat_hex length_md5_digest)

lemma hex_byte_chars: "set (hex_byte b) \<subseteq> set hex_digits"
proof -
  have "unat b < 256" using unsigned_less [of b] by simp
  then have "unat b div 16 < 16" by simp
  moreover have "unat b mod 16 < 16" by simp
  moreover have "length hex_digits = 16" by (simp add: hex_digits_def)
  ultimately show ?thesis
    unfolding hex_byte_def by (auto intro: nth_mem)
qed

lemma md5_hexdigest_chars: "set (md5_hexdigest m) \<subseteq> set hex_digits"
  using hex_byte_chars by (auto simp: md5_hexdigest_def)

lemma foldl_md5_update: "foldl md5_update h blocks = h @ concat blocks"
  by (induction blocks arbitrary: h) (auto simp: md5_update_def)

lemma concat_read_blocks: "n \<noteq> 0 \<Longrightarrow> concat (read_blocks n c) = c"
proof (induction n c rule: read_blocks.induct)
  case (1 n c)
  show ?case
  proof (cases "c = []")
    case True
    then show ?thesis by (simp add: read_blocks.simps)
  next
    case False
    show ?thesis
    proof (cases "n < 0")
      case True
      with False show ?thesis by (simp add: read_blocks.simps [of n c])
    next
      case pos: False
      with False "1.prems" have "concat (read_blocks n (drop (nat n) c)) = drop (nat n) c"
        by (intro "1.IH") auto
      with False pos "1.prems" show ?thesis
        by (simp add: read_blocks.simps [of n c])
    qed
  qed
qed

lemma calculate_md5sum_file:
  assumes "nodes w p = Some (File c)" and "bs \<noteq> Some 0"
  shows "calculate_md5sum p bs w = (Inr (md5_hexdigest c), w\<lparr>opened := opened w @ [p]\<rparr>)"
proof -
  have "(case bs of None \<Rightarrow> 65536 | Some n \<Rightarrow> n) \<noteq> (0::int)"
    using assms(2) by (cases bs) auto
  then show ?thesis
    using assms(1)
    by (simp add: calculate_md5sum_def open_rb_def Let_def foldl_md5_update concat_read_blocks)
qed

lemma not_hex_differs:
  "CHR ''z'' \<in> set d \<Longrightarrow> d \<noteq> md5_hexdigest c"
  using md5_hexdigest_chars [of c] by (auto simp: hex_digits_def)

subsection \<open>\<^verbatim>\<open>validate_md5sum\<close>\<close>

text \<open>
  Claim C3, as amended.  \<^verbatim>\<open>validate_md5sum\<close> raises \<^verbatim>\<open>ValueError\<close> whenever the expected
  checksum is not a string of exactly 32 characters, and it does so before anything else
  happens: the world is returned as it was, so no file has been opened and nothing has been
  printed.  (Whether the 32 characters are hexadecimal digits is not checked.)
\<close>

theorem validate_md5sum_rejects_wrong_length:
  "(case expected_md5 of None \<Rightarrow> True | Some e \<Rightarrow> length e \<noteq> 32) \<Longrightarrow>
   validate_md5sum p expected_md5 silent bs w = (Inl (ValueError (length_message expected_md5)), w)"
  by (cases expected_md5) (auto simp: validate_md5sum_def)

theorem validate_md5sum_rejects_wrong_length_witness:
  "length ''abc'' \<noteq> 32 \<and>
   validate_md5sum ''/home/u/f'' (Some ''abc'') False None example_world
     = (Inl (ValueError ''Expected MD5 must be 32 characters long: abc''), example_world)"
  using validate_md5sum_rejects_wrong_length [of "Some ''abc''" "''/home/u/f''" False None example_world]
  by (simp add: length_message_def)

text \<open>
  Claim C3 as stated fails: a checksum of 32 characters that are not hexadecimal digits
  passes the check, the file is opened and hashed, and the error raised is the mismatch
  \<^verbatim>\<open>AssertionError\<close>, not the validation error.
\<close>

theorem validate_md5sum_non_hex_counterexample:
  "\<not> is_hex32 ''zzzzzzzzzzzzzzzzzzzzzzzzzzzzzzzz'' \<and>
   validate_md5sum ''/home/u/f'' (Some ''zzzzzzzzzzzzzzzzzzzzzzzzzzzzzzzz'') True None example_world
     = (Inl (AssertionError (mismatch_message (md5_hexdigest ''abc'') ''zzzzzzzzzzzzzzzzzzzzzzzzzzzzzzzz'')),
        example_world\<lparr>opened := [''/home/u/f'']\<rparr>)"
proof -
  have f_abc: "nodes example_world ''/home/u/f'' = Some (File ''abc'')"
    by (simp add: example_world_def)
  have differs: "md5_hexdigest ''abc'' \<noteq> ''zzzzzzzzzzzzzzzzzzzzzzzzzzzzzzzz''"
    using not_hex_differs [of "''zzzzzzzzzzzzzzzzzzzzzzzzzzzzzzzz''" "''abc''"] by simp
  have "opened example_world = []"
    by (simp add: example_world_def)
  then show ?thesis
    using differs by (simp add: is_hex32_def validate_md5sum_def calculate_md5sum_file [OF f_abc])
qed



subsection \<open>What each file-system operation changes\<close>

definition only_nodes :: "world \<Rightarrow> world \<Rightarrow> bool" where
  "only_nodes w w' = (\<exists>f. w' = w\<lparr>nodes := f\<rparr>)"

lemma only_nodes_refl [simp]: "only_nodes w w"
  unfolding only_nodes_def by (rule exI [of _ "nodes w"]) simp

lemma only_nodes_update [simp]: "only_nodes w (w\<lparr>nodes := f\<rparr>)"
  unfolding only_nodes_def by blast

lemma only_nodes_trans: "only_nodes w w1 \<Longrightarrow> only_nodes w1 w2 \<Longrightarrow> only_nodes w w2"
  unfolding only_nodes_def by auto

lemma only_nodes_fields:
  assumes "only_nodes w w'"
  shows "stdout w' = stdout w" and "stderr w' = stderr w" and "opened w' = opened w"
    and "fetched w' = fetched w" and "net w' = net w" and "tmp_names w' = tmp_names w"
  using assms unfolding only_nodes_def by auto

text \<open>\<open>grows n w w'\<close>: \<open>w'\<close> is \<open>w\<close> with new directories, at paths that were free and are no
  longer than \<open>n\<close>.\<close>

definition grows :: "nat \<Rightarrow> world \<Rightarrow> world \<Rightarrow> bool" where
  "grows n w w' =
     (only_nodes w w' \<and>
      (\<forall>k. nodes w' k \<noteq> nodes w k \<longrightarrow>
           nodes w k = None \<and> nodes w' k = Some Dir \<and> k \<noteq> [] \<and> \<not> is_root k \<and> length k \<le> n))"

lemma grows_refl [simp]: "grows n w w"
  by (simp add: grows_def)

lemma grows_trans: "grows m w w1 \<Longrightarrow> grows n w1 w2 \<Longrightarrow> m \<le> n \<Longrightarrow> grows n w w2"
  unfolding grows_def by (metis only_nodes_trans le_trans)

lemma os_mkdir_cases:
  "(os_mkdir n w = (Inr (), w\<lparr>nodes := (nodes w)(n \<mapsto> Dir)\<rparr>)
      \<and> n \<noteq> [] \<and> \<not> osp_exists w n \<and> parent_ok w n)
   \<or> (\<exists>e. os_mkdir n w = (Inl e, w) \<and> is_OSError e)"
  by (auto simp: os_mkdir_def)

lemma os_mkdir_grows: "grows (length n) w (snd (os_mkdir n w))"
  using os_mkdir_cases [of n w] by (auto simp: grows_def osp_exists_def split: if_splits)

lemma os_mkdir_OSError: "fst (os_mkdir n w) = Inl e \<Longrightarrow> is_OSError e"
  using os_mkdir_cases [of n w] by auto

lemma os_makedirs_grows_OSError:
  "grows (length name) w (snd (os_makedirs name w))
   \<and> (\<forall>e. fst (os_makedirs name w) = Inl e \<longrightarrow> is_OSError e)"
proof (induction name w rule: os_makedirs.induct)
  case (1 name w)
  show ?case
  proof (cases "fst (md_split name) \<noteq> [] \<and> snd (md_split name) \<noteq> []
                  \<and> \<not> osp_exists w (fst (md_split name))")
    case False
    then have "os_makedirs name w = os_mkdir name w"
      by (subst os_makedirs.simps) auto
    then show ?thesis
      using os_mkdir_grows [of name w] os_mkdir_OSError [of name w] by auto
  next
    case True
    obtain r w1 where rec: "os_makedirs (fst (md_split name)) w = (r, w1)"
      by (cases "os_makedirs (fst (md_split name)) w")
    from "1.IH" True rec
    have g1: "grows (length (fst (md_split name))) w w1"
      and e1: "\<And>e. r = Inl e \<Longrightarrow> is_OSError e"
      by auto
    have le: "length (fst (md_split name)) \<le> length name"
      using md_split_shorter [of name] True by simp
    have g2: "grows (length name) w (snd (os_mkdir name w1))"
      using grows_trans [OF g1 os_mkdir_grows le] .
    have g0: "grows (length name) w w1"
      using grows_trans [OF g1 grows_refl le] .
    have unfold: "os_makedirs name w =
        (case r of
           Inl e \<Rightarrow> if is_FileExistsError e
                    then (if snd (md_split name) = ''.'' then (Inr (), w1) else os_mkdir name w1)
                    else (Inl e, w1)
         | Inr u \<Rightarrow> if snd (md_split name) = ''.'' then (Inr (), w1) else os_mkdir name w1)"
      using True rec by (subst os_makedirs.simps) (auto split: sum.splits)
    show ?thesis
      unfolding unfold using g0 g2 e1 os_mkdir_OSError [of name w1]
      by (auto split: sum.splits)
  qed
qed

lemma makedirs_quiet_grows:
  "\<exists>w1. makedirs_quiet name w = (Inr (), w1) \<and> grows (length name) w w1"
proof -
  obtain r w1 where rec: "os_makedirs name w = (r, w1)"
    by (cases "os_makedirs name w")
  then show ?thesis
    using os_makedirs_grows_OSError [of name w]
    by (auto simp: makedirs_quiet_def split: sum.splits)
qed

lemma mkdtemp_loop_success:
  "mkdtemp_loop d cs w = (Inr t, w') \<Longrightarrow>
   \<exists>c rest. t = osp_join d (''tmp'' @ random_name c)
     \<and> w' = w\<lparr>nodes := (nodes w)(t \<mapsto> Dir), tmp_names := rest\<rparr>
     \<and> t \<noteq> [] \<and> \<not> osp_exists w t \<and> parent_ok w t"
proof (induction cs arbitrary: w)
  case Nil
  then show ?case by simp
next
  case (Cons c cs)
  let ?f = "osp_join d (''tmp'' @ random_name c)"
  from os_mkdir_cases [of ?f w] show ?case
  proof (elim disjE conjE exE)
    assume ok: "os_mkdir ?f w = (Inr (), w\<lparr>nodes := (nodes w)(?f \<mapsto> Dir)\<rparr>)"
      and props: "?f \<noteq> []" "\<not> osp_exists w ?f" "parent_ok w ?f"
    with Cons.prems have "t = ?f" and "w' = w\<lparr>nodes := (nodes w)(?f \<mapsto> Dir), tmp_names := cs\<rparr>"
      by auto
    with props show ?thesis by blast
  next
    fix e assume bad: "os_mkdir ?f w = (Inl e, w)" and "is_OSError e"
    with Cons.prems have "is_FileExistsError e" and "mkdtemp_loop d cs w = (Inr t, w')"
      by (auto split: if_splits)
    with Cons.IH show ?thesis by blast
  qed
qed


lemma custom_download_effect:
  "custom_download url out silent w = (r, w') \<Longrightarrow>
   fetched w' = fetched w @ [url] \<and> stdout w' = stdout w \<and> stderr w' = stderr w
   \<and> opened w' = opened w \<and> net w' = net w \<and> tmp_names w' = tmp_names w
   \<and> (\<forall>k. k \<noteq> out \<longrightarrow> nodes w' k = nodes w k)
   \<and> (\<forall>u. r = Inr u \<longrightarrow> (\<exists>b. nodes w' out = Some (File b)))"
  by (auto simp: custom_download_def Let_def split: outcome.splits option.splits)

lemma filelock_acquire_cases:
  "(filelock_acquire l w = (Inr (), w\<lparr>nodes := (nodes w)(l \<mapsto> File [])\<rparr>)
      \<and> l \<noteq> [] \<and> \<not> osp_isdir w l \<and> parent_ok w l)
   \<or> (\<exists>e. filelock_acquire l w = (Inl e, w))"
  by (auto simp: filelock_acquire_def)

lemma os_rename_cases:
  "(\<exists>c. os_rename src dst w = (Inr (), w\<lparr>nodes := (nodes w)(src := None, dst \<mapsto> File c)\<rparr>)
        \<and> nodes w src = Some (File c) \<and> dst \<noteq> [] \<and> parent_ok w dst \<and> \<not> osp_isdir w dst)
   \<or> ((\<exists>e. os_rename src dst w = (Inl e, w))
        \<and> \<not> ((\<exists>c. nodes w src = Some (File c)) \<and> dst \<noteq> [] \<and> parent_ok w dst \<and> \<not> osp_isdir w dst))"
  by (auto simp: os_rename_def split: option.splits node.splits)

lemma shutil_move_success:
  assumes "shutil_move src dst w = (Inr u, w')"
  shows "only_nodes w w' \<and> osp_exists w' dst"
proof (cases "osp_isdir w dst")
  case False
  with assms have "os_rename src dst w = (Inr u, w')"
    by (simp add: shutil_move_def)
  with os_rename_cases [of src dst w] show ?thesis
    by (auto simp: osp_exists_def)
next
  case True
  let ?real = "osp_join dst (osp_basename (rstrip_slash src))"
  from True assms have ren: "os_rename src ?real w = (Inr u, w')"
    by (auto simp: shutil_move_def Let_def split: if_splits)
  with os_rename_cases [of src ?real w] obtain c
    where w': "w' = w\<lparr>nodes := (nodes w)(src := None, ?real \<mapsto> File c)\<rparr>"
      and src: "nodes w src = Some (File c)"
    by auto
  from True src have "src \<noteq> dst"
    by (auto simp: osp_isdir_def)
  with True w' show ?thesis
    by (auto simp: osp_exists_def osp_isdir_def)
qed

lemma shutil_move_failure:
  "shutil_move src dst w = (Inl e, w') \<Longrightarrow> w' = w"
  using os_rename_cases [of src dst w]
    os_rename_cases [of src "osp_join dst (osp_basename (rstrip_slash src))" w]
  by (auto simp: shutil_move_def Let_def split: if_splits)

lemma download_and_publish_success:
  assumes "download_and_publish url fp silent lock t w = (Inr u, w')"
  shows "osp_exists w' fp \<and> fetched w' = fetched w @ [url] \<and> stdout w' = stdout w
         \<and> tmp_names w' = tmp_names w"
proof -
  let ?w1 = "if \<not> silent
             then print_err (if fp \<noteq> [] then ''Cached Download in progress: '' @ fp
                             else ''Cached Download in progress...'') w
             else w"
  have w1: "fetched ?w1 = fetched w" "stdout ?w1 = stdout w" "tmp_names ?w1 = tmp_names w"
    by (auto simp: print_err_def)
  obtain r w2 where dl: "custom_download url (osp_join t ''dl'') silent ?w1 = (r, w2)"
    by (cases "custom_download url (osp_join t ''dl'') silent ?w1")
  from custom_download_effect [OF dl] w1
  have w2: "fetched w2 = fetched w @ [url]" "stdout w2 = stdout w" "tmp_names w2 = tmp_names w"
    by auto
  from assms dl obtain w3 where
    lk: "filelock_acquire lock w2 = (Inr (), w3)" and
    mv: "shutil_move (osp_join t ''dl'') fp w3 = (Inr u, w')"
    by (auto simp: download_and_publish_def Let_def split: sum.splits prod.splits)
  from lk filelock_acquire_cases [of lock w2] have "only_nodes w2 w3"
    by auto
  with shutil_move_success [OF mv] have "only_nodes w2 w'" "osp_exists w' fp"
    by (auto intro: only_nodes_trans)
  with w2 show ?thesis
    by (auto dest: only_nodes_fields)
qed

lemma fetch_to_cache_success:
  assumes "fetch_to_cache home url fp silent w = (Inr u, w')"
  shows "osp_exists w' fp \<and> fetched w' = fetched w @ [url] \<and> stdout w' = stdout w"
proof -
  obtain w1 where md: "makedirs_quiet (osp_dirname fp) w = (Inr (), w1)"
    and g: "grows (length (osp_dirname fp)) w w1"
    using makedirs_quiet_grows by blast
  from assms md obtain t w2 w3 where
    tmp: "mkdtemp (custom_cache_root home) w1 = (Inr t, w2)" and
    dp: "download_and_publish url fp silent (osp_join (custom_cache_root home) ''_dl_lock'') t w2
           = (Inr u, w3)" and
    w': "w' = w3"
    by (auto simp: fetch_to_cache_def Let_def split: sum.splits prod.splits)
  from g have f1: "fetched w1 = fetched w" "stdout w1 = stdout w"
    by (auto simp: grows_def dest: only_nodes_fields)
  from tmp mkdtemp_loop_success [of "custom_cache_root home" "tmp_names w1" w1 t w2]
  have f2: "fetched w2 = fetched w1" "stdout w2 = stdout w1"
    by (auto simp: mkdtemp_def)
  from download_and_publish_success [OF dp] f1 f2 w' show ?thesis
    by simp
qed

subsection \<open>Cache hits\<close>

lemma check_cache_hit:
  "osp_exists w fp \<Longrightarrow> \<not> truthy expected_md5 \<Longrightarrow>
   check_cache fp expected_md5 silent w
     = (Inr (Some fp), if silent then w else w\<lparr>stdout := stdout w @ [''File already exists: '' @ fp]\<rparr>)"
  by (simp add: check_cache_def print_out_def)

lemma check_cache_absent:
  "\<not> osp_exists w fp \<Longrightarrow> check_cache fp expected_md5 silent w = (Inr None, w)"
  by (simp add: check_cache_def)

text \<open>
  Claim C1.  With the target path \<open>resolve_file_path home url file_path\<close> present and no
  checksum supplied, \<^verbatim>\<open>cached_custom_download\<close> returns that path at once: the resulting world
  is the old one, apart from the line printed when not silent, so nothing was fetched and no
  file was opened.  Hence, starting without the target, if a first call without checksum and
  post-processing returns, it has made exactly one fetch, and a second call for the same URL
  returns the same path without any further fetch.
\<close>

theorem cached_custom_download_idempotent:
  "(osp_exists w (resolve_file_path home url file_path) \<longrightarrow>
      cached_custom_download home url file_path None silent postprocess w
        = (Inr (resolve_file_path home url file_path),
           if silent then w
           else w\<lparr>stdout := stdout w @ [''File already exists: '' @ resolve_file_path home url file_path]\<rparr>))
   \<and> (\<not> osp_exists w (resolve_file_path home url file_path)
        \<and> cached_custom_download home url file_path None silent None w = (Inr p, w1) \<longrightarrow>
      p = resolve_file_path home url file_path
      \<and> fetched w1 = fetched w @ [url]
      \<and> fst (cached_custom_download home url file_path None silent' postprocess' w1) = Inr p
      \<and> fetched (snd (cached_custom_download home url file_path None silent' postprocess' w1))
          = fetched w @ [url])"
proof (intro conjI impI)
  let ?fp = "resolve_file_path home url file_path"
  assume "osp_exists w ?fp"
  then show "cached_custom_download home url file_path None silent postprocess w
        = (Inr ?fp, if silent then w else w\<lparr>stdout := stdout w @ [''File already exists: '' @ ?fp]\<rparr>)"
    by (simp add: cached_custom_download_def check_cache_hit Let_def)
next
  let ?fp = "resolve_file_path home url file_path"
  assume a: "\<not> osp_exists w ?fp
    \<and> cached_custom_download home url file_path None silent None w = (Inr p, w1)"
  then have "\<exists>u. fetch_to_cache home url ?fp silent w = (Inr u, w1)" and p: "p = ?fp"
    by (auto simp: cached_custom_download_def check_cache_absent verify_and_postprocess_def Let_def
             split: sum.splits prod.splits)
  then obtain u where "fetch_to_cache home url ?fp silent w = (Inr u, w1)"
    by blast
  from fetch_to_cache_success [OF this]
  have ex: "osp_exists w1 ?fp" and f: "fetched w1 = fetched w @ [url]"
    by auto
  have second: "cached_custom_download home url file_path None silent' postprocess' w1
      = (Inr ?fp, if silent' then w1 else w1\<lparr>stdout := stdout w1 @ [''File already exists: '' @ ?fp]\<rparr>)"
    using ex by (simp add: cached_custom_download_def check_cache_hit Let_def)
  show "p = ?fp" by (rule p)
  show "fetched w1 = fetched w @ [url]" by (rule f)
  show "fst (cached_custom_download home url file_path None silent' postprocess' w1) = Inr p"
    using second p by simp
  show "fetched (snd (cached_custom_download home url file_path None silent' postprocess' w1))
          = fetched w @ [url]"
    using second f by simp
qed

lemma check_cache_empty:
  "check_cache fp (Some []) silent w = check_cache fp None silent w"
  by (simp add: check_cache_def)

lemma verify_and_postprocess_empty:
  "verify_and_postprocess fp (Some []) silent postprocess w
     = verify_and_postprocess fp None silent postprocess w"
  by (simp add: verify_and_postprocess_def)

text \<open>
  Claim C10.  An empty string as expected checksum behaves as no checksum at all, in every
  world.  In particular, with the target present the call returns the path as a cache hit,
  the world unchanged but for the line printed when not silent: no file is opened and no
  error is raised, although \<^verbatim>\<open>validate_md5sum\<close> itself rejects the empty string.
\<close>

theorem empty_checksum_is_no_checksum:
  "cached_custom_download home url file_path (Some []) silent postprocess w
     = cached_custom_download home url file_path None silent postprocess w
   \<and> (osp_exists w (resolve_file_path home url file_path) \<longrightarrow>
        cached_custom_download home url file_path (Some []) silent postprocess w
          = (Inr (resolve_file_path home url file_path),
             if silent then w
             else w\<lparr>stdout := stdout w @ [''File already exists: '' @ resolve_file_path home url file_path]\<rparr>))
   \<and> fst (validate_md5sum (resolve_file_path home url file_path) (Some []) silent None w)
       = Inl (ValueError ''Expected MD5 must be 32 characters long: '')"
proof (intro conjI impI)
  show "cached_custom_download home url file_path (Some []) silent postprocess w
     = cached_custom_download home url file_path None silent postprocess w"
    unfolding cached_custom_download_def check_cache_empty verify_and_postprocess_empty ..
next
  assume "osp_exists w (resolve_file_path home url file_path)"
  then show "cached_custom_download home url file_path (Some []) silent postprocess w
          = (Inr (resolve_file_path home url file_path),
             if silent then w
             else w\<lparr>stdout := stdout w @ [''File already exists: '' @ resolve_file_path home url file_path]\<rparr>)"
    by (simp add: cached_custom_download_def check_cache_empty check_cache_hit Let_def)
next
  show "fst (validate_md5sum (resolve_file_path home url file_path) (Some []) silent None w)
       = Inl (ValueError ''Expected MD5 must be 32 characters long: '')"
    by (simp add: validate_md5sum_def length_message_def)
qed

subsection \<open>Paths under the cache root\<close>

lemma py_replace_char:
  "py_replace [a] new s = concat (map (\<lambda>c. if c = a then new else [c]) s)"
proof (induction s)
  case Nil
  then show ?case by (simp add: py_replace.simps)
next
  case (Cons x xs)
  then show ?case
    by (subst py_replace.simps) auto
qed

lemma concat_map_concat_map:
  "concat (map g (concat (map f xs))) = concat (map (\<lambda>x. concat (map g (f x))) xs)"
  by (induction xs) auto

lemma derived_name:
  "py_replace ''?'' ''-QUESTION-''
     (py_replace ''='' ''-EQUAL-''
       (py_replace '':'' ''-COLON-''
         (py_replace ''/'' ''-SLASH-'' url))) = concat (map marker url)"
proof -
  have "concat (map (\<lambda>c. if c = CHR ''?'' then ''-QUESTION-'' else [c])
          (concat (map (\<lambda>c. if c = CHR ''='' then ''-EQUAL-'' else [c])
            (concat (map (\<lambda>c. if c = CHR '':'' then ''-COLON-'' else [c])
              (if c = CHR ''/'' then ''-SLASH-'' else [c])))))) = marker c" for c
    by (simp add: marker_def)
  then show ?thesis
    by (simp add: py_replace_char concat_map_concat_map)
qed

lemma marker_no_slash: "slash \<notin> set (concat (map marker url))"
  by (induction url) (auto simp: marker_def slash_def)

lemma cache_root_shape:
  "custom_cache_root home \<noteq> [] \<and> last (custom_cache_root home) \<noteq> slash"
  by (simp add: custom_cache_root_def osp_join_def slash_def)

lemma osp_join_plain:
  "r \<noteq> [] \<Longrightarrow> last r \<noteq> slash \<Longrightarrow> slash \<notin> set name \<Longrightarrow> osp_join r name = r @ slash # name"
  by (cases name) (auto simp: osp_join_def)

lemma osp_split_join:
  assumes "slash \<notin> set name" and "r \<noteq> []" and "last r \<noteq> slash"
  shows "osp_split (r @ slash # name) = (r, name)"
proof -
  have rev_eq: "rev (r @ slash # name) = rev name @ slash # rev r"
    by simp
  have tw: "takeWhile (\<lambda>c. c \<noteq> slash) (rev name @ slash # rev r) = rev name"
    using assms(1) by (subst takeWhile_append2) auto
  have dw: "dropWhile (\<lambda>c. c \<noteq> slash) (rev name @ slash # rev r) = slash # rev r"
    using assms(1) by (subst dropWhile_append2) auto
  have "rev (butlast r @ [last r]) = last r # rev (butlast r)"
    by simp
  then have rr: "rev r = last r # rev (butlast r)"
    using assms(2) by simp
  have in_r: "last r \<in> set r"
    using assms(2) by simp
  have not_root: "r @ [slash] \<noteq> replicate (Suc (length r)) slash"
  proof
    assume "r @ [slash] = replicate (Suc (length r)) slash"
    then have "set (r @ [slash]) = set (replicate (Suc (length r)) slash)"
      by (rule arg_cong)
    then have "set r \<subseteq> {slash}"
      by auto
    with in_r assms(3) show False
      by blast
  qed
  have "dropWhile (\<lambda>c. c = slash) (last r # rev (butlast r)) = last r # rev (butlast r)"
    using assms(3) by simp
  then have "dropWhile (\<lambda>c. c = slash) (rev r) = rev r"
    by (simp only: rr [symmetric])
  then have strip: "rstrip_slash (r @ [slash]) = r"
    by (simp add: rstrip_slash_def)
  show ?thesis
    unfolding osp_split_def rev_eq tw dw using not_root strip
    by (simp add: Let_def)
qed

text \<open>
  Claim C6.  Without a \<^verbatim>\<open>file_path\<close>, the target is the cache root, a slash, and the URL
  with each \<^verbatim>\<open>/\<close>, \<^verbatim>\<open>:\<close>, \<^verbatim>\<open>=\<close> and \<^verbatim>\<open>?\<close> replaced by its marker (the four replacements of the
  code, made one after the other, amount to replacing each character on its own); the
  directory of that path is the cache root itself.
\<close>

theorem resolve_file_path_derived:
  "resolve_file_path home url None = custom_cache_root home @ ''/'' @ concat (map marker url)
   \<and> osp_dirname (resolve_file_path home url None) = custom_cache_root home"
proof -
  have eq: "resolve_file_path home url None = custom_cache_root home @ slash # concat (map marker url)"
    using cache_root_shape [of home] marker_no_slash [of url]
    by (simp add: resolve_file_path_def derived_name osp_join_plain)
  have "osp_split (custom_cache_root home @ slash # concat (map marker url))
          = (custom_cache_root home, concat (map marker url))"
    using cache_root_shape [of home] marker_no_slash [of url] by (intro osp_split_join) auto
  with eq show ?thesis
    by (simp add: osp_dirname_def slash_def)
qed

subsection \<open>Two calls in the small world\<close>

lemma example_target:
  "resolve_file_path ''/home/u'' ''http://x/a'' None
     = ''/home/u/.custom_cache/gdown/http-COLON--SLASH--SLASH-x-SLASH-a''"
  by (simp add: resolve_file_path_def custom_cache_root_def osp_join_def py_replace_char slash_def)

lemma example_first_call:
  "fst (cached_custom_download ''/home/u'' ''http://x/a'' None None True None example_world)
     = Inr ''/home/u/.custom_cache/gdown/http-COLON--SLASH--SLASH-x-SLASH-a''"
  by (simp add: cached_custom_download_def example_target custom_cache_root_def osp_join_def
        check_cache_def osp_exists_def is_root_def example_world_def fetch_to_cache_def
        makedirs_quiet_def os_makedirs.simps md_split_def osp_split_def rstrip_slash_def slash_def
        os_mkdir_def parent_ok_def parent_dir_def osp_isdir_def mkdtemp_def random_name_def
        tmp_characters_def download_and_publish_def custom_download_def filelock_acquire_def
        shutil_move_def os_rename_def verify_and_postprocess_def Let_def print_err_def
        osp_dirname_def osp_basename_def)

theorem cached_custom_download_idempotent_witness:
  "osp_exists example_world ''/home/u/f''
   \<and> cached_custom_download ''/home/u'' ''http://x/a'' (Some ''/home/u/f'') None True None example_world
       = (Inr ''/home/u/f'', example_world)
   \<and> \<not> osp_exists example_world ''/home/u/.custom_cache/gdown/http-COLON--SLASH--SLASH-x-SLASH-a''
   \<and> fst (cached_custom_download ''/home/u'' ''http://x/a'' None None True None example_world)
       = Inr ''/home/u/.custom_cache/gdown/http-COLON--SLASH--SLASH-x-SLASH-a''
   \<and> fetched (snd (cached_custom_download ''/home/u'' ''http://x/a'' None None True None example_world))
       = [''http://x/a'']
   \<and> fst (cached_custom_download ''/home/u'' ''http://x/a'' None None True None
            (snd (cached_custom_download ''/home/u'' ''http://x/a'' None None True None example_world)))
       = Inr ''/home/u/.custom_cache/gdown/http-COLON--SLASH--SLASH-x-SLASH-a''
   \<and> fetched (snd (cached_custom_download ''/home/u'' ''http://x/a'' None None True None
            (snd (cached_custom_download ''/home/u'' ''http://x/a'' None None True None example_world))))
       = [''http://x/a'']"
proof -
  let ?first = "cached_custom_download ''/home/u'' ''http://x/a'' None None True None example_world"
  have hit: "osp_exists example_world (resolve_file_path ''/home/u'' ''http://x/a'' (Some ''/home/u/f''))"
    by (simp add: resolve_file_path_def osp_exists_def example_world_def)
  have miss: "\<not> osp_exists example_world (resolve_file_path ''/home/u'' ''http://x/a'' None)"
    by (simp add: example_target osp_exists_def example_world_def is_root_def slash_def)
  have first: "?first = (Inr ''/home/u/.custom_cache/gdown/http-COLON--SLASH--SLASH-x-SLASH-a'', snd ?first)"
    using example_first_call by (simp add: prod_eq_iff)
  have start: "fetched example_world = []"
    by (simp add: example_world_def)
  note part1 = cached_custom_download_idempotent
            [where w = example_world and home = "''/home/u''" and url = "''http://x/a''"
               and file_path = "Some ''/home/u/f''" and silent = True and postprocess = None,
             THEN conjunct1, rule_format, OF hit]
  note part2 = cached_custom_download_idempotent
            [where w = example_world and home = "''/home/u''" and url = "''http://x/a''"
               and file_path = None and silent = True
               and p = "''/home/u/.custom_cache/gdown/http-COLON--SLASH--SLASH-x-SLASH-a''"
               and ?w1.0 = "snd ?first" and silent' = True and postprocess' = None,
             THEN conjunct2, rule_format, OF conjI [OF miss first]]
  have a: "osp_exists example_world ''/home/u/f''"
    using hit by (simp add: resolve_file_path_def)
  have b: "cached_custom_download ''/home/u'' ''http://x/a'' (Some ''/home/u/f'') None True None example_world
       = (Inr ''/home/u/f'', example_world)"
    using part1 by (simp add: resolve_file_path_def)
  have c: "\<not> osp_exists example_world ''/home/u/.custom_cache/gdown/http-COLON--SLASH--SLASH-x-SLASH-a''"
    using miss unfolding example_target .
  from part2 have d: "fetched (snd ?first) = [''http://x/a'']"
    and e: "fst (cached_custom_download ''/home/u'' ''http://x/a'' None None True None (snd ?first))
       = Inr ''/home/u/.custom_cache/gdown/http-COLON--SLASH--SLASH-x-SLASH-a''"
    and f: "fetched (snd (cached_custom_download ''/home/u'' ''http://x/a'' None None True None (snd ?first)))
       = [''http://x/a'']"
    by (simp_all only: start append_Nil)
  from a b c example_first_call d e f show ?thesis
    by blast
qed

theorem empty_checksum_is_no_checksum_witness:
  "osp_exists example_world ''/home/u/f''
   \<and> cached_custom_download ''/home/u'' ''http://x/a'' (Some ''/home/u/f'') (Some []) False None example_world
       = (Inr ''/home/u/f'', example_world\<lparr>stdout := [''File already exists: /home/u/f'']\<rparr>)"
proof -
  have hit: "osp_exists example_world (resolve_file_path ''/home/u'' ''http://x/a'' (Some ''/home/u/f''))"
    by (simp add: resolve_file_path_def osp_exists_def example_world_def)
  have start: "stdout example_world = []"
    by (simp add: example_world_def)
  note step = empty_checksum_is_no_checksum
         [of "''/home/u''" "''http://x/a''" "Some ''/home/u/f''" False None example_world,
          THEN conjunct2, THEN conjunct1, rule_format, OF hit]
  show ?thesis
    using step hit start by (simp add: resolve_file_path_def)
qed

subsection \<open>The command line\<close>

text \<open>
  Claim C8.  When the capacity error (\<^verbatim>\<open>FolderContentsMaximumLimitError\<close>) reaches its handler,
  the handler calls \<^verbatim>\<open>indent\<close> with the keyword argument \<^verbatim>\<open>prefix\<close>, but the parameters of
  \<^verbatim>\<open>indent\<close> are \<^verbatim>\<open>t\<close> and \<^verbatim>\<open>p\<close>: the call raises \<^verbatim>\<open>TypeError\<close> inside the handler, nothing has
  been printed, and the exception leaves \<^verbatim>\<open>main\<close> uncaught.  The diagnostic with the hint at
  \<^verbatim>\<open>--remaining-ok\<close> is never printed.  With \<^verbatim>\<open>--folder\<close> the capacity error does not even
  arise: the body fails on the undefined name \<^verbatim>\<open>download_folder\<close>, and \<^verbatim>\<open>main\<close> prints the bare
  line \<^verbatim>\<open>Error\<close>.
\<close>

theorem capacity_error_handler_raises:
  "main_handlers wrap (Inl (FolderContentsMaximumLimitError m))
     = ([], Uncaught (TypeError (''indent() got an unexpected keyword argument '' @ [CHR 0x27] @ ''prefix'' @ [CHR 0x27])))
   \<and> main wrap True engine = ([''Error''], SysExit 1)"
  by (simp add: main_handlers_def call_indent_def main_def main_try_def)

subsection \<open>The temporary directory, the downloaded file and the lock\<close>

lemma random_name_no_slash: "slash \<notin> set (random_name c)"
proof
  assume "slash \<in> set (random_name c)"
  then obtain i where i: "slash = tmp_characters ! (i mod 37)"
    by (auto simp: random_name_def)
  have "tmp_characters ! (i mod 37) \<in> set tmp_characters"
    by (rule nth_mem) (simp add: tmp_characters_def)
  with i have "slash \<in> set tmp_characters"
    by simp
  then show False
    by (simp add: tmp_characters_def slash_def)
qed

lemma tmp_name_no_slash: "slash \<notin> set (''tmp'' @ random_name c)"
  using random_name_no_slash [of c] by (simp add: slash_def)

lemma last_no_slash:
  assumes "xs \<noteq> []" and "slash \<notin> set xs"
  shows "last (r @ slash # xs) \<noteq> slash"
proof
  assume "last (r @ slash # xs) = slash"
  with assms(1) have eq: "last xs = slash"
    by simp
  from last_in_set [OF assms(1)] have "last xs \<in> set xs" .
  with eq have "slash \<in> set xs"
    by simp
  with assms(2) show False ..
qed

lemma not_root_if: "x \<in> set p \<Longrightarrow> x \<noteq> slash \<Longrightarrow> \<not> is_root p"
proof
  assume a: "x \<in> set p" "x \<noteq> slash" and "is_root p"
  then have "p = replicate (length p) slash" by (simp add: is_root_def)
  then have "set p \<subseteq> {slash}" by (metis set_replicate_conv_if empty_subsetI subset_refl)
  with a show False by auto
qed

lemma md_split_join:
  assumes "slash \<notin> set name" and "name \<noteq> []" and "r \<noteq> []" and "last r \<noteq> slash"
  shows "md_split (r @ slash # name) = (r, name)"
  using osp_split_join [OF assms(1,3,4)] assms(2) by (simp add: md_split_def)

lemma tmp_dir_shape:
  fixes home c
  defines "R \<equiv> custom_cache_root home"
  defines "t \<equiv> osp_join R (''tmp'' @ random_name c)"
  shows "t = R @ slash # ''tmp'' @ random_name c" and "t \<noteq> []" and "last t \<noteq> slash"
    and "parent_dir t = R" and "\<not> is_root t" and "osp_basename t = ''tmp'' @ random_name c"
proof -
  have R: "R \<noteq> []" "last R \<noteq> slash"
    using cache_root_shape [of home] by (simp_all add: R_def)
  show eq: "t = R @ slash # ''tmp'' @ random_name c"
    unfolding t_def using R tmp_name_no_slash [of c] by (rule osp_join_plain)
  show "t \<noteq> []" using eq by simp
  show "last t \<noteq> slash"
    unfolding eq using last_no_slash [of "''tmp'' @ random_name c" R] tmp_name_no_slash [of c] by simp
  have sp: "md_split t = (R, ''tmp'' @ random_name c)" "osp_split t = (R, ''tmp'' @ random_name c)"
    unfolding eq using md_split_join [of "''tmp'' @ random_name c" R] osp_split_join [of "''tmp'' @ random_name c" R]
      tmp_name_no_slash [of c] R by simp_all
  show "parent_dir t = R" using sp by (simp add: parent_dir_def)
  show "osp_basename t = ''tmp'' @ random_name c" using sp by (simp add: osp_basename_def)
  have "CHR ''t'' \<in> set t" unfolding eq by simp
  then show "\<not> is_root t" by (rule not_root_if) (simp add: slash_def)
qed

lemma dl_shape:
  assumes "t \<noteq> []" and "last t \<noteq> slash"
  shows "osp_join t ''dl'' = t @ slash # ''dl''" and "parent_dir (osp_join t ''dl'') = t"
    and "t \<in> set (ancestors (osp_join t ''dl''))" and "osp_basename (osp_join t ''dl'') = ''dl''"
proof -
  have ns: "slash \<notin> set ''dl''" by (simp add: slash_def)
  show eq: "osp_join t ''dl'' = t @ slash # ''dl''"
    using assms ns by (rule osp_join_plain)
  have sp: "md_split (t @ slash # ''dl'') = (t, ''dl'')" "osp_split (t @ slash # ''dl'') = (t, ''dl'')"
    using md_split_join [OF ns _ assms] osp_split_join [OF ns assms] by simp_all
  show pd: "parent_dir (osp_join t ''dl'') = t"
    using sp by (simp add: eq parent_dir_def)
  show "osp_basename (osp_join t ''dl'') = ''dl''"
    using sp by (simp add: eq osp_basename_def)
  show "t \<in> set (ancestors (osp_join t ''dl''))"
    using assms(1) by (subst ancestors.simps) (simp add: pd, simp add: eq)
qed

lemma lock_shape:
  fixes home
  defines "R \<equiv> custom_cache_root home"
  defines "lock \<equiv> osp_join R ''_dl_lock''"
  shows "lock = R @ slash # ''_dl_lock''" and "parent_dir lock = R"
proof -
  have R: "R \<noteq> []" "last R \<noteq> slash"
    using cache_root_shape [of home] by (simp_all add: R_def)
  have ns: "slash \<notin> set ''_dl_lock''" by (simp add: slash_def)
  show eq: "lock = R @ slash # ''_dl_lock''"
    unfolding lock_def using R ns by (rule osp_join_plain)
  show "parent_dir lock = R"
    using md_split_join [OF ns _ R] by (simp add: eq parent_dir_def)
qed

lemma lock_not_dl:
  "osp_join (custom_cache_root home) ''_dl_lock''
     \<noteq> osp_join (osp_join (custom_cache_root home) (''tmp'' @ random_name c)) ''dl''"
  using tmp_dir_shape(1,2,3) [of home c] lock_shape(1) [of home]
    dl_shape(1) [of "osp_join (custom_cache_root home) (''tmp'' @ random_name c)"]
  by simp

lemma lock_not_tmp:
  "osp_join (custom_cache_root home) ''_dl_lock''
     \<noteq> osp_join (custom_cache_root home) (''tmp'' @ random_name c)"
  using tmp_dir_shape(1) [of home c] lock_shape(1) [of home] by simp

lemma ancestors_shorter: "a \<in> set (ancestors p) \<Longrightarrow> length a < length p"
proof (induction p rule: ancestors.induct)
  case (1 p)
  show ?case
  proof (cases "parent_dir p = [] \<or> length p \<le> length (parent_dir p)")
    case True
    with "1.prems" show ?thesis by (subst (asm) ancestors.simps) simp
  next
    case False
    with "1.prems" have "a = parent_dir p \<or> a \<in> set (ancestors (parent_dir p))"
      by (subst (asm) ancestors.simps) auto
    with False "1.IH" show ?thesis by fastforce
  qed
qed


subsection \<open>What a failed download changes\<close>

lemma validate_md5sum_frame:
  "validate_md5sum p e silent bs w = (r, w') \<Longrightarrow>
   nodes w' = nodes w \<and> fetched w' = fetched w \<and> net w' = net w \<and> tmp_names w' = tmp_names w
   \<and> stderr w' = stderr w \<and> (silent \<longrightarrow> stdout w' = stdout w)"
  by (auto simp: validate_md5sum_def calculate_md5sum_def open_rb_def print_out_def Let_def
           split: option.splits if_splits node.splits)

lemma validate_md5sum_mismatch:
  "validate_md5sum p e silent bs w = (Inl (AssertionError m), w') \<Longrightarrow> \<exists>c. nodes w p = Some (File c)"
  by (auto simp: validate_md5sum_def calculate_md5sum_def open_rb_def print_out_def Let_def
           split: option.splits if_splits node.splits)

lemma check_cache_frame:
  assumes "check_cache fp e silent w = (r, w0)"
  shows "nodes w0 = nodes w \<and> fetched w0 = fetched w \<and> net w0 = net w \<and> tmp_names w0 = tmp_names w
         \<and> (silent \<longrightarrow> stdout w0 = stdout w)"
proof -
  obtain r1 w1 where v: "validate_md5sum fp e silent None w = (r1, w1)"
    by (cases "validate_md5sum fp e silent None w")
  note fr = validate_md5sum_frame [OF v]
  from assms v fr show ?thesis
    by (auto simp: check_cache_def print_out_def print_err_def split: if_splits sum.splits exn.splits)
qed

lemma check_cache_fallthrough:
  assumes "check_cache fp e silent w = (Inr None, w0)" and "osp_exists w fp"
  shows "\<exists>c. nodes w fp = Some (File c)"
proof -
  obtain r1 w1 where v: "validate_md5sum fp e silent None w = (r1, w1)"
    by (cases "validate_md5sum fp e silent None w")
  from assms v obtain m where "r1 = Inl (AssertionError m)"
    by (auto simp: check_cache_def split: if_splits sum.splits exn.splits)
  with v validate_md5sum_mismatch show ?thesis
    by blast
qed

lemma download_and_publish_failure:
  assumes fail: "download_and_publish url fp silent lock t w = (Inl e, w')"
    and lock: "lock \<noteq> osp_join t ''dl''" and fp: "fp \<noteq> osp_join t ''dl''"
  shows "nodes w' fp = nodes w fp"
proof -
  let ?src = "osp_join t ''dl''"
  let ?w1 = "if \<not> silent
             then print_err (if fp \<noteq> [] then ''Cached Download in progress: '' @ fp
                             else ''Cached Download in progress...'') w
             else w"
  have w1: "nodes ?w1 = nodes w"
    by (simp add: print_err_def)
  obtain r w2 where dl: "custom_download url ?src silent ?w1 = (r, w2)"
    by (cases "custom_download url ?src silent ?w1")
  note eff = custom_download_effect [OF dl]
  from eff fp w1 have w2: "nodes w2 fp = nodes w fp"
    by simp
  show ?thesis
  proof (cases r)
    case (Inl x)
    with fail dl have "w' = w2"
      by (simp add: download_and_publish_def Let_def)
    with w2 show ?thesis by simp
  next
    case (Inr u)
    with eff obtain b where src: "nodes w2 ?src = Some (File b)"
      by blast
    from filelock_acquire_cases [of lock w2] show ?thesis
    proof (elim disjE conjE exE)
      fix x assume "filelock_acquire lock w2 = (Inl x, w2)"
      with fail dl Inr have "w' = w2"
        by (simp add: download_and_publish_def Let_def)
      with w2 show ?thesis by simp
    next
      let ?w3 = "w2\<lparr>nodes := (nodes w2)(lock \<mapsto> File [])\<rparr>"
      assume acq: "filelock_acquire lock w2 = (Inr (), ?w3)"
        and props: "lock \<noteq> []" "\<not> osp_isdir w2 lock" "parent_ok w2 lock"
      with fail dl Inr have mv: "shutil_move ?src fp ?w3 = (Inl e, w')"
        by (simp add: download_and_publish_def Let_def)
      then have w': "w' = ?w3"
        by (rule shutil_move_failure)
      show ?thesis
      proof (cases "fp = lock")
        case False
        with w' w2 show ?thesis by simp
      next
        case True
        have pd: "parent_dir lock \<noteq> lock"
          using props by (auto simp: parent_ok_def)
        have "nodes ?w3 ?src = Some (File b)"
          using src lock by simp
        moreover have "parent_ok ?w3 lock"
          using props(3) pd by (auto simp: parent_ok_def osp_isdir_def)
        moreover have "\<not> osp_isdir ?w3 lock"
          by (simp add: osp_isdir_def)
        ultimately have "\<exists>w4. os_rename ?src lock ?w3 = (Inr (), w4)"
          using os_rename_cases [of ?src lock ?w3] props(1) by auto
        moreover have "shutil_move ?src lock ?w3 = os_rename ?src lock ?w3"
          by (simp add: shutil_move_def osp_isdir_def)
        ultimately show ?thesis
          using mv True by auto
      qed
    qed
  qed
qed

lemma grows_nodes:
  assumes "grows n w w1"
  shows "nodes w k \<noteq> None \<Longrightarrow> nodes w1 k = nodes w k"
    and "nodes w1 k = None \<Longrightarrow> nodes w k = None"
    and "length k > n \<Longrightarrow> nodes w1 k = nodes w k"
    and "k = [] \<Longrightarrow> nodes w1 k = nodes w k"
  using assms unfolding grows_def by (metis option.distinct(1) not_le)+

lemma dirname_shorter:
  assumes "p \<noteq> []" and "\<not> is_root p"
  shows "length (osp_dirname p) < length p"
proof (cases "snd (osp_split p) = []")
  case False
  then show ?thesis
    using osp_split_length [of p] by (cases "snd (osp_split p)") (auto simp: osp_dirname_def)
next
  case True
  then have tw: "takeWhile (\<lambda>c. c \<noteq> slash) (rev p) = []"
    by (simp add: osp_split_def Let_def)
  then have dw: "dropWhile (\<lambda>c. c \<noteq> slash) (rev p) = rev p"
    by (metis append_Nil takeWhile_dropWhile_id)
  from tw assms(1) have hd: "hd (rev p) = slash"
    by (cases "rev p") (auto split: if_splits)
  have "rev p \<noteq> []" using assms(1) by simp
  with hd have "length (dropWhile (\<lambda>c. c = slash) (rev p)) < length (rev p)"
    by (cases "rev p") (auto simp: length_dropWhile_le less_Suc_eq_le)
  then have "length (rstrip_slash p) < length p"
    by (simp add: rstrip_slash_def)
  moreover have "p \<noteq> replicate (length p) slash"
    using assms by (simp add: is_root_def)
  ultimately show ?thesis
    using assms(1) by (simp add: osp_dirname_def osp_split_def Let_def dw)
qed


subsection \<open>Failure before the file is published\<close>

lemma wf_fs_example: "wf_fs example_offline_world"
proof -
  have keys: "k \<in> {''/home'', ''/home/u'', ''/home/u/.custom_cache'', ''/home/u/.custom_cache/gdown'', ''/home/u/f''}"
    if "nodes example_offline_world k \<noteq> None" for k
    using that by (auto simp: example_offline_world_def example_world_def split: if_splits)
  have anc: "ancestors ''/home'' = [''/'']" "ancestors ''/home/u'' = [''/home'', ''/'']"
    "ancestors ''/home/u/.custom_cache'' = [''/home/u'', ''/home'', ''/'']"
    "ancestors ''/home/u/.custom_cache/gdown'' = [''/home/u/.custom_cache'', ''/home/u'', ''/home'', ''/'']"
    "ancestors ''/home/u/f'' = [''/home/u'', ''/home'', ''/'']"
    by (simp_all add: ancestors.simps parent_dir_def md_split_def osp_split_def rstrip_slash_def slash_def Let_def)
  have dirs: "osp_isdir example_offline_world ''/''" "osp_isdir example_offline_world ''/home''"
    "osp_isdir example_offline_world ''/home/u''" "osp_isdir example_offline_world ''/home/u/.custom_cache''"
    by (simp_all add: osp_isdir_def example_offline_world_def example_world_def is_root_def slash_def)
  show ?thesis
    unfolding wf_fs_def using keys anc dirs by fastforce
qed


lemma example_offline_eval:
  "resolve_file_path ''/home/u'' ''http://x/a'' None
     = ''/home/u/.custom_cache/gdown/http-COLON--SLASH--SLASH-x-SLASH-a''"
  "custom_cache_root ''/home/u'' = ''/home/u/.custom_cache/gdown''"
  "makedirs_quiet (osp_dirname ''/home/u/.custom_cache/gdown/http-COLON--SLASH--SLASH-x-SLASH-a'')
     example_offline_world = (Inr (), example_offline_world)"
  "fst (mkdtemp ''/home/u/.custom_cache/gdown'' example_offline_world)
     = Inr ''/home/u/.custom_cache/gdown/tmpabcdefgh''"
  "fst (download_and_publish ''http://x/a''
          ''/home/u/.custom_cache/gdown/http-COLON--SLASH--SLASH-x-SLASH-a'' True
          (osp_join ''/home/u/.custom_cache/gdown'' ''_dl_lock'')
          ''/home/u/.custom_cache/gdown/tmpabcdefgh''
          (snd (mkdtemp ''/home/u/.custom_cache/gdown'' example_offline_world)))
     = Inl (OtherError ''connection reset'')"
  "check_cache ''/home/u/.custom_cache/gdown/http-COLON--SLASH--SLASH-x-SLASH-a'' None True
     example_offline_world = (Inr None, example_offline_world)"
  by (simp_all add: example_target custom_cache_root_def osp_join_def
        check_cache_def osp_exists_def is_root_def example_world_def example_offline_world_def
        makedirs_quiet_def os_makedirs.simps md_split_def osp_split_def rstrip_slash_def slash_def
        os_mkdir_def parent_ok_def parent_dir_def osp_isdir_def mkdtemp_def random_name_def
        tmp_characters_def download_and_publish_def custom_download_def Let_def
        osp_dirname_def)

text \<open>
  Claim C2.  Take a call that reaches the download step (the cache check falls through) and
  has made its temporary directory \<open>t\<close> under the cache root.  If the body of the \<^verbatim>\<open>try\<close> (the
  download, the lock, the move to the target) fails with \<open>e\<close>, then the call raises \<open>e\<close>, the
  directory \<open>t\<close> and everything below it are gone, and the target path holds what it held
  before the call: nothing, or the old entry.  The file system the call starts in is
  well-formed: every entry lies in an existing directory.
\<close>

theorem failed_download_cleans_up:
  assumes reach: "check_cache (resolve_file_path home url file_path) expected_md5 silent w = (Inr None, w0)"
    and tmp: "mkdtemp (custom_cache_root home)
                (snd (makedirs_quiet (osp_dirname (resolve_file_path home url file_path)) w0)) = (Inr t, w2)"
    and fail: "download_and_publish url (resolve_file_path home url file_path) silent
                 (osp_join (custom_cache_root home) ''_dl_lock'') t w2 = (Inl e, w3)"
    and wf: "wf_fs w"
  shows "cached_custom_download home url file_path expected_md5 silent postprocess w = (Inl e, rmtree t w3)
         \<and> nodes (rmtree t w3) t = None
         \<and> (\<forall>k. t \<in> set (ancestors k) \<longrightarrow> nodes (rmtree t w3) k = None)
         \<and> nodes (rmtree t w3) (resolve_file_path home url file_path)
             = nodes w (resolve_file_path home url file_path)"
proof -
  let ?fp = "resolve_file_path home url file_path"
  let ?R = "custom_cache_root home"
  let ?lock = "osp_join ?R ''_dl_lock''"
  obtain w1 where md: "makedirs_quiet (osp_dirname ?fp) w0 = (Inr (), w1)"
    and g: "grows (length (osp_dirname ?fp)) w0 w1"
    using makedirs_quiet_grows by blast
  from tmp md have tmp': "mkdtemp_loop ?R (tmp_names w1) w1 = (Inr t, w2)"
    by (simp add: mkdtemp_def)
  from mkdtemp_loop_success [OF tmp'] obtain c rest where
    t: "t = osp_join ?R (''tmp'' @ random_name c)" and
    w2: "w2 = w1\<lparr>nodes := (nodes w1)(t \<mapsto> Dir), tmp_names := rest\<rparr>" and
    fresh: "\<not> osp_exists w1 t"
    by blast
  note shape = tmp_dir_shape [of home c, folded t]
  note dl = dl_shape [OF shape(2,3)]
  have n0: "nodes w0 = nodes w"
    using check_cache_frame [OF reach] by simp
  have fresh1: "nodes w1 t = None"
    using fresh by (simp add: osp_exists_def)
  have first: "cached_custom_download home url file_path expected_md5 silent postprocess w
                 = (Inl e, rmtree t w3)"
    using reach md tmp fail
    by (simp add: cached_custom_download_def fetch_to_cache_def Let_def)
  have second: "nodes (rmtree t w3) t = None"
    by (simp add: rmtree_def)
  have third: "\<forall>k. t \<in> set (ancestors k) \<longrightarrow> nodes (rmtree t w3) k = None"
    by (simp add: rmtree_def)
  have fourth: "nodes (rmtree t w3) ?fp = nodes w ?fp"
  proof (cases "?fp = t \<or> t \<in> set (ancestors ?fp)")
    case True
    then have gone: "nodes (rmtree t w3) ?fp = None"
      by (auto simp: rmtree_def)
    have "nodes w ?fp = None"
    proof (rule ccontr)
      assume ex: "nodes w ?fp \<noteq> None"
      from True show False
      proof
        assume "?fp = t"
        with ex n0 grows_nodes(2) [OF g fresh1] show False by simp
      next
        assume "t \<in> set (ancestors ?fp)"
        with wf ex have "osp_isdir w t"
          by (auto simp: wf_fs_def)
        with shape(5) have "nodes w0 t = Some Dir"
          by (simp add: osp_isdir_def n0)
        then have "nodes w1 t = Some Dir"
          using grows_nodes(1) [OF g, of t] by simp
        with fresh1 show False by simp
      qed
    qed
    with gone show ?thesis by simp
  next
    case False
    then have ne_t: "?fp \<noteq> t" and not_under: "t \<notin> set (ancestors ?fp)"
      by auto
    have "nodes (rmtree t w3) ?fp = nodes w3 ?fp"
      using False by (simp add: rmtree_def)
    also have "nodes w3 ?fp = nodes w2 ?fp"
    proof (rule download_and_publish_failure [OF fail])
      show "?lock \<noteq> osp_join t ''dl''"
        unfolding t by (rule lock_not_dl)
      show "?fp \<noteq> osp_join t ''dl''"
        using dl(3) not_under by auto
    qed
    also have "nodes w2 ?fp = nodes w1 ?fp"
      using ne_t by (simp add: w2)
    also have "nodes w1 ?fp = nodes w0 ?fp"
    proof (cases "nodes w0 ?fp = None")
      case False
      then show ?thesis by (rule grows_nodes(1) [OF g])
    next
      case absent: True
      show ?thesis
      proof (cases "?fp = []")
        case True
        then show ?thesis by (rule grows_nodes(4) [OF g])
      next
        case False
        have "\<not> is_root ?fp"
        proof
          assume "is_root ?fp"
          then have "osp_exists w ?fp" by (simp add: osp_exists_def)
          from check_cache_fallthrough [OF reach this] absent n0 show False by simp
        qed
        with False have "length (osp_dirname ?fp) < length ?fp"
          by (rule dirname_shorter)
        then show ?thesis by (rule grows_nodes(3) [OF g])
      qed
    qed
    finally show ?thesis by (simp add: n0)
  qed
  from first second third fourth show ?thesis by blast
qed

theorem failed_download_cleans_up_witness:
  "wf_fs example_offline_world
   \<and> check_cache ''/home/u/.custom_cache/gdown/http-COLON--SLASH--SLASH-x-SLASH-a'' None True
        example_offline_world = (Inr None, example_offline_world)
   \<and> fst (cached_custom_download ''/home/u'' ''http://x/a'' None None True None example_offline_world)
       = Inl (OtherError ''connection reset'')
   \<and> nodes (snd (cached_custom_download ''/home/u'' ''http://x/a'' None None True None example_offline_world))
        ''/home/u/.custom_cache/gdown/tmpabcdefgh'' = None
   \<and> nodes (snd (cached_custom_download ''/home/u'' ''http://x/a'' None None True None example_offline_world))
        ''/home/u/.custom_cache/gdown/tmpabcdefgh/dl'' = None
   \<and> nodes (snd (cached_custom_download ''/home/u'' ''http://x/a'' None None True None example_offline_world))
        ''/home/u/.custom_cache/gdown/http-COLON--SLASH--SLASH-x-SLASH-a''
       = nodes example_offline_world ''/home/u/.custom_cache/gdown/http-COLON--SLASH--SLASH-x-SLASH-a''"
proof -
  let ?W = example_offline_world
  let ?FP = "''/home/u/.custom_cache/gdown/http-COLON--SLASH--SLASH-x-SLASH-a''"
  let ?T = "''/home/u/.custom_cache/gdown/tmpabcdefgh''"
  let ?w2 = "snd (mkdtemp ''/home/u/.custom_cache/gdown'' ?W)"
  let ?w3 = "snd (download_and_publish ''http://x/a'' ?FP True
                    (osp_join ''/home/u/.custom_cache/gdown'' ''_dl_lock'') ?T ?w2)"
  have reach: "check_cache (resolve_file_path ''/home/u'' ''http://x/a'' None) None True ?W = (Inr None, ?W)"
    by (simp only: example_offline_eval)
  have tmp: "mkdtemp (custom_cache_root ''/home/u'')
               (snd (makedirs_quiet (osp_dirname (resolve_file_path ''/home/u'' ''http://x/a'' None)) ?W))
             = (Inr ?T, ?w2)"
    using example_offline_eval(4) by (simp add: example_offline_eval(1,2,3) prod_eq_iff)
  have fail: "download_and_publish ''http://x/a'' (resolve_file_path ''/home/u'' ''http://x/a'' None) True
                (osp_join (custom_cache_root ''/home/u'') ''_dl_lock'') ?T ?w2
              = (Inl (OtherError ''connection reset''), ?w3)"
    using example_offline_eval(5) by (simp add: example_offline_eval(1,2) prod_eq_iff)
  note inst = failed_download_cleans_up [OF reach tmp fail wf_fs_example, where postprocess = None]
  have under: "?T \<in> set (ancestors ''/home/u/.custom_cache/gdown/tmpabcdefgh/dl'')"
    by (simp add: ancestors.simps parent_dir_def md_split_def osp_split_def rstrip_slash_def slash_def Let_def)
  from inst under show ?thesis
    using wf_fs_example example_offline_eval(6) by (simp add: example_offline_eval(1))
qed


subsection \<open>The temporary directory after a successful download\<close>

lemma os_mkdir_failure:
  "os_mkdir name w = (Inl e, w1) \<Longrightarrow> w1 = w \<and> (name = [] \<or> osp_exists w name \<or> \<not> parent_ok w name)"
  by (auto simp: os_mkdir_def split: if_splits)

lemma os_mkdir_creates:
  assumes "os_mkdir name w = (r, w1)" and "name \<noteq> []" and "parent_ok w1 name"
  shows "osp_exists w1 name"
proof (cases r)
  case (Inl e)
  with assms os_mkdir_failure [of name w e w1] show ?thesis by auto
next
  case (Inr u)
  with assms(1) os_mkdir_cases [of name w] show ?thesis
    by (auto simp: osp_exists_def)
qed

lemma os_makedirs_unfold:
  assumes "fst (md_split name) \<noteq> []" "snd (md_split name) \<noteq> []" "\<not> osp_exists w (fst (md_split name))"
    and "os_makedirs (fst (md_split name)) w = (r, wh)"
  shows "os_makedirs name w =
        (case r of
           Inl e \<Rightarrow> if is_FileExistsError e
                    then (if snd (md_split name) = ''.'' then (Inr (), wh) else os_mkdir name wh)
                    else (Inl e, wh)
         | Inr u \<Rightarrow> if snd (md_split name) = ''.'' then (Inr (), wh) else os_mkdir name wh)"
  using assms by (subst os_makedirs.simps) (auto split: sum.splits)

lemma os_makedirs_plain:
  assumes "\<not> (fst (md_split name) \<noteq> [] \<and> snd (md_split name) \<noteq> [] \<and> \<not> osp_exists w (fst (md_split name)))"
  shows "os_makedirs name w = os_mkdir name w"
  using assms by (subst os_makedirs.simps) auto

lemma os_makedirs_grows: "grows (length name) w (snd (os_makedirs name w))"
  using os_makedirs_grows_OSError [of name w] by simp

lemma os_makedirs_error_absent:
  assumes "os_makedirs name w = (Inl e, w1)" and "\<not> osp_exists w name"
  shows "\<not> osp_exists w1 name"
proof (cases "fst (md_split name) \<noteq> [] \<and> snd (md_split name) \<noteq> [] \<and> \<not> osp_exists w (fst (md_split name))")
  case False
  with assms(1) have "os_mkdir name w = (Inl e, w1)"
    by (simp add: os_makedirs_plain)
  with os_mkdir_failure assms(2) show ?thesis by blast
next
  case True
  obtain r wh where rec: "os_makedirs (fst (md_split name)) w = (r, wh)"
    by (cases "os_makedirs (fst (md_split name)) w")
  have g: "grows (length (fst (md_split name))) w wh"
    using os_makedirs_grows [of "fst (md_split name)" w] rec by simp
  have "length (fst (md_split name)) < length name"
    using True md_split_shorter by blast
  then have "nodes wh name = nodes w name"
    by (rule grows_nodes(3) [OF g])
  with assms(2) have absent: "\<not> osp_exists wh name"
    by (simp add: osp_exists_def)
  have "w1 = wh"
    using assms(1) os_makedirs_unfold [of name w r wh] True rec os_mkdir_failure [of name wh e w1]
    by (auto split: sum.splits if_splits)
  with absent show ?thesis by simp
qed

lemma os_makedirs_creates:
  assumes run: "os_makedirs name w = (r, w1)" and ne: "name \<noteq> []"
    and tail: "snd (md_split name) \<noteq> ''.''" and pok: "parent_ok w1 name"
  shows "osp_exists w1 name"
proof (cases "fst (md_split name) \<noteq> [] \<and> snd (md_split name) \<noteq> [] \<and> \<not> osp_exists w (fst (md_split name))")
  case False
  with run have "os_mkdir name w = (r, w1)"
    by (simp add: os_makedirs_plain)
  then show ?thesis using ne pok by (rule os_mkdir_creates)
next
  case True
  obtain r' wh where rec: "os_makedirs (fst (md_split name)) w = (r', wh)"
    by (cases "os_makedirs (fst (md_split name)) w")
  note unf = os_makedirs_unfold [of name w r' wh]
  show ?thesis
  proof (cases "\<exists>e. r' = Inl e \<and> \<not> is_FileExistsError e")
    case False
    with run unf True rec tail have "os_mkdir name wh = (r, w1)"
      by (auto split: sum.splits if_splits)
    then show ?thesis using ne pok by (rule os_mkdir_creates)
  next
    case bad: True
    then obtain e where e: "r' = Inl e" "\<not> is_FileExistsError e"
      by blast
    with run unf True rec have "w1 = wh"
      by auto
    with pok True have "osp_exists wh (fst (md_split name))"
      by (auto simp: parent_ok_def parent_dir_def osp_isdir_def osp_exists_def)
    moreover have "\<not> osp_exists wh (fst (md_split name))"
      using os_makedirs_error_absent [of "fst (md_split name)" w e wh] rec e True by simp
    ultimately show ?thesis by simp
  qed
qed

lemma makedirs_quiet_creates:
  assumes "makedirs_quiet name w = (r, w1)" and "name \<noteq> []"
    and "snd (md_split name) \<noteq> ''.''" and "parent_ok w1 name"
  shows "osp_exists w1 name"
proof -
  obtain r' where "os_makedirs name w = (r', w1)"
    using assms(1) by (cases "os_makedirs name w") (auto simp: makedirs_quiet_def split: sum.splits if_splits)
  then show ?thesis using assms(2-4) by (rule os_makedirs_creates)
qed

lemma download_and_publish_success_nodes:
  assumes ok: "download_and_publish url fp silent lock t w = (Inr u, w')"
    and dir: "nodes w t = Some Dir" and t: "t \<noteq> osp_join t ''dl''"
    and lock: "lock \<noteq> t" "lock \<noteq> osp_join t ''dl''"
  shows "nodes w' t = Some Dir \<and> (nodes w' (osp_join t ''dl'') = None \<or> fp = osp_join t ''dl'')"
proof -
  let ?src = "osp_join t ''dl''"
  let ?w1 = "if \<not> silent
             then print_err (if fp \<noteq> [] then ''Cached Download in progress: '' @ fp
                             else ''Cached Download in progress...'') w
             else w"
  have w1: "nodes ?w1 = nodes w"
    by (simp add: print_err_def)
  obtain r w2 where dl: "custom_download url ?src silent ?w1 = (r, w2)"
    by (cases "custom_download url ?src silent ?w1")
  note eff = custom_download_effect [OF dl]
  from ok dl obtain w3 where
    lk: "filelock_acquire lock w2 = (Inr (), w3)" and
    mv: "shutil_move ?src fp w3 = (Inr u, w')" and r: "r = Inr ()"
    by (auto simp: download_and_publish_def Let_def split: sum.splits prod.splits)
  from eff r obtain b where src2: "nodes w2 ?src = Some (File b)"
    by blast
  from eff t w1 dir have t2: "nodes w2 t = Some Dir"
    by simp
  from lk filelock_acquire_cases [of lock w2] have w3: "w3 = w2\<lparr>nodes := (nodes w2)(lock \<mapsto> File [])\<rparr>"
    by auto
  from w3 lock src2 t2 have src3: "nodes w3 ?src = Some (File b)" and t3: "nodes w3 t = Some Dir"
    by auto
  show ?thesis
  proof (cases "osp_isdir w3 fp")
    case False
    with mv have "os_rename ?src fp w3 = (Inr u, w')"
      by (simp add: shutil_move_def)
    with os_rename_cases [of ?src fp w3] obtain c where
      w': "w' = w3\<lparr>nodes := (nodes w3)(?src := None, fp \<mapsto> File c)\<rparr>"
      by auto
    from False t3 have "fp \<noteq> t"
      by (auto simp: osp_isdir_def)
    with w' t3 t show ?thesis
      by auto
  next
    case True
    let ?real = "osp_join fp (osp_basename (rstrip_slash ?src))"
    from True mv have absent: "\<not> osp_exists w3 ?real" and ren: "os_rename ?src ?real w3 = (Inr u, w')"
      by (auto simp: shutil_move_def Let_def split: if_splits)
    from ren os_rename_cases [of ?src ?real w3] obtain c where
      w': "w' = w3\<lparr>nodes := (nodes w3)(?src := None, ?real \<mapsto> File c)\<rparr>"
      by auto
    from absent src3 t3 have "?real \<noteq> ?src" "?real \<noteq> t"
      by (auto simp: osp_exists_def)
    with w' t3 t show ?thesis
      by auto
  qed
qed


lemma tmp_dir_dirname:
  "osp_dirname (osp_join (custom_cache_root home) (''tmp'' @ random_name c)) = custom_cache_root home"
  "snd (md_split (osp_join (custom_cache_root home) (''tmp'' @ random_name c))) \<noteq> ''.''"
proof -
  have sp: "osp_split (custom_cache_root home @ slash # ''tmp'' @ random_name c)
          = (custom_cache_root home, ''tmp'' @ random_name c)"
    using cache_root_shape [of home] tmp_name_no_slash [of c] by (intro osp_split_join) auto
  have eq: "osp_join (custom_cache_root home) (''tmp'' @ random_name c)
          = custom_cache_root home @ slash # ''tmp'' @ random_name c"
    by (rule tmp_dir_shape(1))
  show "osp_dirname (osp_join (custom_cache_root home) (''tmp'' @ random_name c)) = custom_cache_root home"
    unfolding eq osp_dirname_def sp by simp
  show "snd (md_split (osp_join (custom_cache_root home) (''tmp'' @ random_name c))) \<noteq> ''.''"
    unfolding eq md_split_def sp by simp
qed

text \<open>
  Claim C9.  When a call that reaches the download step (the cache check falls through)
  returns normally, without a post-processing callback, the temporary directory \<open>t\<close> it made
  is still there: \<open>t\<close> lies directly under the cache root, did not exist before the call, is
  a directory after it, and the file \<^verbatim>\<open>dl\<close> it held has been moved out.  (Only the \<^verbatim>\<open>except\<close>
  branch calls \<^verbatim>\<open>shutil.rmtree\<close>.)
\<close>

theorem temp_dir_survives_success:
  assumes reach: "check_cache (resolve_file_path home url file_path) expected_md5 silent w = (Inr None, w0)"
    and ok: "cached_custom_download home url file_path expected_md5 silent None w = (Inr p, w')"
  shows "\<exists>t w2. mkdtemp (custom_cache_root home)
                   (snd (makedirs_quiet (osp_dirname (resolve_file_path home url file_path)) w0)) = (Inr t, w2)
           \<and> osp_dirname t = custom_cache_root home
           \<and> nodes w t = None
           \<and> nodes w' t = Some Dir
           \<and> nodes w' (osp_join t ''dl'') = None"
proof -
  let ?fp = "resolve_file_path home url file_path"
  let ?R = "custom_cache_root home"
  let ?lock = "osp_join ?R ''_dl_lock''"
  obtain w1 where md: "makedirs_quiet (osp_dirname ?fp) w0 = (Inr (), w1)"
    and g: "grows (length (osp_dirname ?fp)) w0 w1"
    using makedirs_quiet_grows by blast
  from ok reach md obtain t w2 w3 u where
    tmp: "mkdtemp ?R w1 = (Inr t, w2)" and
    dp: "download_and_publish url ?fp silent ?lock t w2 = (Inr u, w3)" and
    vp: "verify_and_postprocess ?fp expected_md5 silent None w3 = (Inr p, w')"
    by (auto simp: cached_custom_download_def fetch_to_cache_def Let_def split: sum.splits prod.splits)
  from tmp have tmp': "mkdtemp_loop ?R (tmp_names w1) w1 = (Inr t, w2)"
    by (simp add: mkdtemp_def)
  from mkdtemp_loop_success [OF tmp'] obtain c rest where
    t: "t = osp_join ?R (''tmp'' @ random_name c)" and
    w2: "w2 = w1\<lparr>nodes := (nodes w1)(t \<mapsto> Dir), tmp_names := rest\<rparr>" and
    fresh: "\<not> osp_exists w1 t" and pok: "parent_ok w1 t"
    by blast
  note shape = tmp_dir_shape [of home c, folded t]
  note dl = dl_shape [OF shape(2,3)]
  have n0: "nodes w0 = nodes w"
    using check_cache_frame [OF reach] by simp
  have fresh1: "nodes w1 t = None"
    using fresh by (simp add: osp_exists_def)
  have absent: "nodes w t = None"
    using grows_nodes(2) [OF g fresh1] n0 by simp
  have nv: "nodes w' = nodes w3"
  proof -
    obtain r1 wv where v: "validate_md5sum ?fp expected_md5 silent None w3 = (r1, wv)"
      by (cases "validate_md5sum ?fp expected_md5 silent None w3")
    from validate_md5sum_frame [OF v] vp v show ?thesis
      by (auto simp: verify_and_postprocess_def split: if_splits sum.splits)
  qed
  have "t \<noteq> osp_join t ''dl''"
    by (simp add: dl(1))
  moreover have "nodes w2 t = Some Dir"
    by (simp add: w2)
  moreover have "?lock \<noteq> t" "?lock \<noteq> osp_join t ''dl''"
    unfolding t by (rule lock_not_tmp, rule lock_not_dl)
  ultimately have res: "nodes w3 t = Some Dir"
      "nodes w3 (osp_join t ''dl'') = None \<or> ?fp = osp_join t ''dl''"
    using download_and_publish_success_nodes [OF dp] by auto
  have "?fp \<noteq> osp_join t ''dl''"
  proof
    assume eq: "?fp = osp_join t ''dl''"
    have "osp_dirname (osp_join t ''dl'') = t"
      using osp_split_join [of "''dl''" t] shape(2,3) by (simp add: dl(1) osp_dirname_def slash_def)
    with eq md have "makedirs_quiet t w0 = (Inr (), w1)"
      by simp
    then have "osp_exists w1 t"
      using shape(2) tmp_dir_dirname(2) [of home c, folded t] pok by (rule makedirs_quiet_creates)
    with fresh show False ..
  qed
  with res have gone: "nodes w3 (osp_join t ''dl'') = None"
    by simp
  from tmp md have "mkdtemp ?R (snd (makedirs_quiet (osp_dirname ?fp) w0)) = (Inr t, w2)"
    by simp
  moreover have "osp_dirname t = ?R"
    unfolding t by (rule tmp_dir_dirname(1))
  ultimately show ?thesis
    using absent res(1) gone nv by auto
qed


lemma example_eval:
  "custom_cache_root ''/home/u'' = ''/home/u/.custom_cache/gdown''"
  "makedirs_quiet (osp_dirname ''/home/u/.custom_cache/gdown/http-COLON--SLASH--SLASH-x-SLASH-a'')
     example_world = (Inr (), example_world)"
  "fst (mkdtemp ''/home/u/.custom_cache/gdown'' example_world)
     = Inr ''/home/u/.custom_cache/gdown/tmpabcdefgh''"
  "check_cache ''/home/u/.custom_cache/gdown/http-COLON--SLASH--SLASH-x-SLASH-a'' None True
     example_world = (Inr None, example_world)"
  by (simp_all add: custom_cache_root_def osp_join_def
        check_cache_def osp_exists_def is_root_def example_world_def
        makedirs_quiet_def os_makedirs.simps md_split_def osp_split_def rstrip_slash_def slash_def
        os_mkdir_def parent_ok_def parent_dir_def osp_isdir_def mkdtemp_def random_name_def
        tmp_characters_def Let_def osp_dirname_def)

theorem temp_dir_survives_success_witness:
  "check_cache ''/home/u/.custom_cache/gdown/http-COLON--SLASH--SLASH-x-SLASH-a'' None True
     example_world = (Inr None, example_world)
   \<and> fst (cached_custom_download ''/home/u'' ''http://x/a'' None None True None example_world)
       = Inr ''/home/u/.custom_cache/gdown/http-COLON--SLASH--SLASH-x-SLASH-a''
   \<and> nodes example_world ''/home/u/.custom_cache/gdown/tmpabcdefgh'' = None
   \<and> nodes (snd (cached_custom_download ''/home/u'' ''http://x/a'' None None True None example_world))
        ''/home/u/.custom_cache/gdown/tmpabcdefgh'' = Some Dir
   \<and> nodes (snd (cached_custom_download ''/home/u'' ''http://x/a'' None None True None example_world))
        (osp_join ''/home/u/.custom_cache/gdown/tmpabcdefgh'' ''dl'') = None"
proof -
  let ?first = "cached_custom_download ''/home/u'' ''http://x/a'' None None True None example_world"
  let ?T = "''/home/u/.custom_cache/gdown/tmpabcdefgh''"
  have reach: "check_cache (resolve_file_path ''/home/u'' ''http://x/a'' None) None True example_world
                 = (Inr None, example_world)"
    by (simp only: example_target example_eval)
  have ok: "?first = (Inr ''/home/u/.custom_cache/gdown/http-COLON--SLASH--SLASH-x-SLASH-a'', snd ?first)"
    using example_first_call by (simp add: prod_eq_iff)
  from temp_dir_survives_success [OF reach ok] obtain t w2 where
    tmp: "mkdtemp (custom_cache_root ''/home/u'')
            (snd (makedirs_quiet (osp_dirname (resolve_file_path ''/home/u'' ''http://x/a'' None)) example_world))
          = (Inr t, w2)" and
    res: "nodes example_world t = None" "nodes (snd ?first) t = Some Dir"
         "nodes (snd ?first) (osp_join t ''dl'') = None"
    by blast
  from tmp have "fst (mkdtemp ''/home/u/.custom_cache/gdown'' example_world) = Inr t"
    by (simp add: example_target example_eval(1,2))
  then have "t = ?T"
    by (simp add: example_eval(3))
  with res reach example_first_call show ?thesis
    by (simp add: example_target)
qed


subsection \<open>Checksum mismatches: an existing target and a fresh download\<close>








subsection \<open>What the core prints\<close>











end
